theory Spec2Isabelle
  imports Complex_Main "HOL-Library.Char_ord" "HOL-Library.List_Lexorder"
begin

section \<open>Strings as the extractor uses them\<close>

text \<open>
  The program is Python: a \<open>str\<close> is a sequence of code points. The model uses
  \<^typ>\<open>string\<close>, so it covers the names, paths and replies whose code points are below
  256; the library functions below (\<open>str.lower\<close>, \<open>str.strip\<close>, \<open>str.split\<close>,
  \<open>str.rfind\<close>, \<open>str.join\<close>, \<open>in\<close> on strings) are written out for that range.
\<close>

definition is_space :: "char \<Rightarrow> bool" where
  \<comment> \<open>\<open>str.isspace\<close> below code point 256: TAB..CR, FS..US, space, NEL, NBSP\<close>
  "is_space c = (let n = (of_char c :: nat) in
     (9 \<le> n \<and> n \<le> 13) \<or> (28 \<le> n \<and> n \<le> 32) \<or> n = 133 \<or> n = 160)"

definition lower_char :: "char \<Rightarrow> char" where
  \<comment> \<open>\<open>str.lower\<close> below code point 256: A..Z and the Latin-1 capitals except the
      multiplication sign move up by 32\<close>
  "lower_char c = (let n = (of_char c :: nat) in
     if (65 \<le> n \<and> n \<le> 90) \<or> (192 \<le> n \<and> n \<le> 222 \<and> n \<noteq> 215)
     then char_of (n + 32) else c)"

definition lower :: "string \<Rightarrow> string" where
  "lower s = map lower_char s"

definition strip :: "string \<Rightarrow> string" where
  "strip s = rev (dropWhile is_space (rev (dropWhile is_space s)))"

function split_ws :: "string \<Rightarrow> string list" where
  \<comment> \<open>\<open>s.split()\<close>: the maximal runs of characters that are not white space\<close>
  "split_ws [] = []"
| "split_ws (c # cs) =
     (if is_space c then split_ws cs
      else (c # takeWhile (\<lambda>x. \<not> is_space x) cs)
             # split_ws (dropWhile (\<lambda>x. \<not> is_space x) cs))"
  by pat_completeness auto
termination
  by (relation "measure length") (auto simp: length_dropWhile_le less_Suc_eq_le)

fun split_on :: "char \<Rightarrow> string \<Rightarrow> string list" where
  \<comment> \<open>\<open>s.split(sep)\<close> for a one-character separator: never the empty list\<close>
  "split_on sep [] = [[]]"
| "split_on sep (c # cs) =
     (case split_on sep cs of
        [] \<Rightarrow> (if c = sep then [[], []] else [[c]])
      | w # ws \<Rightarrow> (if c = sep then [] # w # ws else (c # w) # ws))"

fun join :: "string \<Rightarrow> string list \<Rightarrow> string" where
  \<comment> \<open>\<open>sep.join(xs)\<close>\<close>
  "join sep [] = []"
| "join sep [x] = x"
| "join sep (x # y # ys) = x @ sep @ join sep (y # ys)"

fun rfind :: "char \<Rightarrow> string \<Rightarrow> int" where
  \<comment> \<open>\<open>s.rfind(c)\<close>: the last index of \<open>c\<close>, or -1\<close>
  "rfind c [] = - 1"
| "rfind c (x # xs) =
     (let r = rfind c xs in if 0 \<le> r then r + 1 else if x = c then 0 else - 1)"

fun contains :: "string \<Rightarrow> string \<Rightarrow> bool" where
  \<comment> \<open>\<open>sub in s\<close>\<close>
  "contains sub [] = (sub = [])"
| "contains sub (c # cs) = (take (length sub) (c # cs) = sub \<or> contains sub cs)"

definition digit_char :: "nat \<Rightarrow> char" where
  "digit_char d = ''0123456789'' ! d"

fun str_nat :: "nat \<Rightarrow> string" where
  \<comment> \<open>\<open>str(n)\<close> for a non-negative integer\<close>
  "str_nat n = (if n < 10 then [digit_char n] else str_nat (n div 10) @ [digit_char (n mod 10)])"

declare str_nat.simps [simp del]

section \<open>Byte-size humanization (\<open>human_readable_size\<close>, utils.py)\<close>

text \<open>
  \<open>num\<close> is a Python float. The model computes with the exact rational value: a byte
  count below \<open>2 ^ 53\<close> is a float without rounding, and dividing a float by
  \<open>1024.0\<close> only changes its exponent, so every value the loop holds is the exact
  quotient. \<open>fmt_1f\<close> is the format \<open>.1f\<close>: the decimal with one fractional digit that
  is nearest to the exact value, ties going to the even digit; the minimum width 3 of
  \<open>3.1f\<close> never pads, since the shortest output \<open>d.d\<close> has three characters.
\<close>

definition fmt_1f :: "rat \<Rightarrow> string" where
  "fmt_1f x =
     (let a = \<bar>x\<bar> * 10;
          q = nat \<lfloor>a\<rfloor>;
          r = a - of_nat q;
          t = (if 1 / 2 < r \<or> (r = 1 / 2 \<and> odd q) then q + 1 else q)
      in (if x < 0 then ''-'' else '''') @ str_nat (t div 10) @ ''.'' @ [digit_char (t mod 10)])"

fun hrs_loop :: "rat \<Rightarrow> string list \<Rightarrow> string" where
  \<comment> \<open>the \<open>for unit in [...]\<close> loop, and the \<open>PB\<close> line after it\<close>
  "hrs_loop num [] = fmt_1f num @ '' PB''"
| "hrs_loop num (unit # units) =
     (if num < 1024 then fmt_1f num @ '' '' @ unit else hrs_loop (num / 1024) units)"

definition human_readable_size :: "rat \<Rightarrow> string" where
  "human_readable_size num = hrs_loop num [''B'', ''KB'', ''MB'', ''GB'', ''TB'']"

definition unit_names :: "string list" where
  \<comment> \<open>the units in the order the specification names them\<close>
  "unit_names = [''B'', ''KB'', ''MB'', ''GB'', ''TB'', ''PB'']"

section \<open>Paths (\<open>posixpath\<close>)\<close>

definition path_join :: "string \<Rightarrow> string \<Rightarrow> string" where
  \<comment> \<open>\<open>os.path.join(a, b)\<close>\<close>
  "path_join a b =
     (if take 1 b = ''/'' then b
      else if a = [] \<or> last a = CHR ''/'' then a @ b
      else a @ ''/'' @ b)"

function has_non_dot :: "string \<Rightarrow> int \<Rightarrow> int \<Rightarrow> bool" where
  \<comment> \<open>the \<open>while filenameIndex < dotIndex\<close> loop of \<open>genericpath._splitext\<close>: does it
      reach a character that is not a dot (and so return the split)?\<close>
  "has_non_dot p filenameIndex dotIndex =
     (if filenameIndex < dotIndex
      then (if take 1 (drop (nat filenameIndex) p) \<noteq> ''.'' then True
            else has_non_dot p (filenameIndex + 1) dotIndex)
      else False)"
  by pat_completeness auto
termination
  by (relation "measure (\<lambda>(p, i, d). nat (d - i))") auto

declare has_non_dot.simps [simp del]

definition splitext :: "string \<Rightarrow> string \<times> string" where
  \<comment> \<open>\<open>os.path.splitext(p)\<close>\<close>
  "splitext p =
     (let sepIndex = rfind CHR ''/'' p;
          dotIndex = rfind CHR ''.'' p
      in if sepIndex < dotIndex \<and> has_non_dot p (sepIndex + 1) dotIndex
         then (take (nat dotIndex) p, drop (nat dotIndex) p)
         else (p, []))"

fun norm_comps :: "bool \<Rightarrow> string list \<Rightarrow> string list \<Rightarrow> string list" where
  \<comment> \<open>the \<open>for comp in comps\<close> loop of \<open>posixpath.normpath\<close>; the first argument is
      \<open>initial_slashes\<close> as a truth value\<close>
  "norm_comps initial_slashes new_comps [] = new_comps"
| "norm_comps initial_slashes new_comps (name # comps) =
     (if name = [] \<or> name = ''.'' then norm_comps initial_slashes new_comps comps
      else if name \<noteq> ''..'' \<or> (\<not> initial_slashes \<and> new_comps = [])
              \<or> (new_comps \<noteq> [] \<and> last new_comps = ''..'')
      then norm_comps initial_slashes (new_comps @ [name]) comps
      else if new_comps \<noteq> [] then norm_comps initial_slashes (butlast new_comps) comps
      else norm_comps initial_slashes new_comps comps)"

definition normpath :: "string \<Rightarrow> string" where
  \<comment> \<open>\<open>os.path.normpath(path)\<close>\<close>
  "normpath path =
     (if path = [] then ''.''
      else
        let initial_slashes =
              (if take 1 path = ''/''
               then (if take 2 path = ''//'' \<and> take 3 path \<noteq> ''///'' then 2 else 1)
               else (0::nat));
            comps = norm_comps (initial_slashes \<noteq> 0) [] (split_on CHR ''/'' path);
            path' = replicate initial_slashes CHR ''/'' @ join ''/'' comps
        in if path' = [] then ''.'' else path')"

definition relpath_below :: "string list \<Rightarrow> string" where
  \<comment> \<open>\<open>os.path.relpath(full_path, folder_path)\<close> for a \<open>full_path\<close> that \<open>os.walk\<close> built
      below \<open>folder_path\<close>: both absolute paths normalise to component lists, the second a
      prefix of the first, and the result joins the components below the root\<close>
  "relpath_below comps = join ''/'' comps"

section \<open>The file system the extractor reads\<close>

text \<open>
  A Python dict of counters becomes a record. \<open>extract_file_content\<close> and the readers it
  calls return the four text counters; the walks keep those and the cumulative byte size
  (\<open>'size'\<close>, here \<open>size_b\<close>).
\<close>

record file_stats =
  words :: nat
  lines :: nat
  characters :: nat
  tokens :: nat

record stats = file_stats +
  size_b :: nat

definition zero_file_stats :: file_stats where
  "zero_file_stats = \<lparr>words = 0, lines = 0, characters = 0, tokens = 0\<rparr>"

definition zero_stats :: stats where
  "zero_stats = \<lparr>words = 0, lines = 0, characters = 0, tokens = 0, size_b = 0\<rparr>"

definition add_file_stats :: "stats \<Rightarrow> file_stats \<Rightarrow> stats" where
  \<comment> \<open>\<open>for key in stats: if key in file_stats: stats[key] += file_stats[key]\<close>\<close>
  "add_file_stats st fs =
     st\<lparr>words := words st + words fs, lines := lines st + lines fs,
        characters := characters st + characters fs, tokens := tokens st + tokens fs\<rparr>"

definition add_stats :: "stats \<Rightarrow> stats \<Rightarrow> stats" where
  \<comment> \<open>\<open>for key in stats: stats[key] += sub_stats[key]\<close>\<close>
  "add_stats st sub =
     \<lparr>words = words st + words sub, lines = lines st + lines sub,
      characters = characters st + characters sub, tokens = tokens st + tokens sub,
      size_b = size_b st + size_b sub\<rparr>"

text \<open>
  A file is what the operating system and the parsing libraries answer for its path:
  \<open>getsize\<close> is \<open>os.path.getsize\<close> and \<open>read_text\<close> is \<open>open(..., errors='ignore').read()\<close>,
  each \<open>Inl (str e)\<close> when it raises; \<open>read_lib\<close> is what the reader built on a parsing
  library (\<open>extract_excel_content\<close>, \<open>extract_ipynb_content\<close>, \<open>extract_docx_content\<close>, which
  catch every exception themselves) returns for the file at an indent level;
  \<open>listdir_error\<close> is the text of the exception \<open>os.listdir\<close> raises on the path, which
  is not a directory. A directory is its list of entries in the order the operating
  system lists them, or, when it cannot be listed, the text of that exception. \<open>Link\<close>
  is a symbolic link to a directory with the given entries: \<open>os.path.isdir\<close> and
  \<open>os.listdir\<close> follow it, \<open>os.walk\<close> lists it among the directories but does not
  walk into it. A symbolic link to a file is a \<open>File\<close>, since every call made on a file
  follows links, and a link to a directory that cannot be listed is a \<open>DirError\<close>, which
  no walk enters.
\<close>

record file_data =
  getsize :: "string + nat"
  read_text :: "string + string"
  read_lib :: "nat \<Rightarrow> string \<times> file_stats"
  listdir_error :: string

datatype fsnode =
    File file_data
  | Dir "(string \<times> fsnode) list"
  | DirError string
  | Link "(string \<times> fsnode) list"

fun isdir :: "fsnode \<Rightarrow> bool" where
  "isdir (File f) = False"
| "isdir (Dir entries) = True"
| "isdir (DirError msg) = True"
| "isdir (Link entries) = True"

fun islink :: "fsnode \<Rightarrow> bool" where
  "islink (Link entries) = True"
| "islink node = False"

section \<open>The extractor (\<open>ProjectContextExtractor\<close>, utils.py)\<close>

record extractor =
  exclusions :: "string set"
  extensions :: "string set"

definition DEFAULT_EXCLUSIONS :: "string set" where
  "DEFAULT_EXCLUSIONS =
     {''venv'', ''MyVenv'', ''.venv'', ''env'', ''log'', ''logs'', ''.env'', ''node_modules'',
      ''.git'', ''__pycache__'', ''.mypy_cache'', ''.pytest_cache'', ''.idea'', ''.vscode'',
      ''.DS_Store'', ''.cache'', ''.ipynb_checkpoints'', ''.history'', ''.svn'', ''.hg'',
      ''.tox'', ''.coverage'', ''.gitignore'', ''.gitattributes'', ''.yarn'',
      ''.parcel-cache'', ''.next'', ''.nuxt'', ''.node_modules'', ''.dist''}"

definition default_extensions :: "string set" where
  "default_extensions =
     {''.py'', ''.pyw'', ''.ipynb'', ''.txt'', ''.pdf'', ''.docx'', ''.xlsx'', ''.xls'',
      ''.js'', ''.jsx'', ''.ts'', ''.tsx'', ''.vue'', ''.html'', ''.css'',
      ''.c'', ''.h'', ''.hpp'', ''.hh'', ''.cc'', ''.cpp'', ''.cxx'', ''.c++'',
      ''.sh'', ''.bash'', ''.zsh'', ''.ksh'', ''.bat'', ''.cmd'', ''.make'', ''.mk'', ''Makefile'',
      ''.java'', ''.go'', ''.rs'', ''.swift'', ''.php'', ''.rb'', ''.pl'', ''.pm'',
      ''.scala'', ''.kt'', ''.kts'', ''.lua'', ''.sql'',
      ''.xml'', ''.yml'', ''.yaml'', ''.json'', ''.md'', ''.csv'', ''.ini'', ''.cfg'', ''.conf'',
      ''.toml'', ''.ps1'', ''.psm1'', ''.psd1'', ''.cmake'', ''CMakeLists.txt'', ''Dockerfile'',
      ''dockerfile'', ''Vagrantfile'', ''Procfile''}"

definition init_extractor :: extractor where
  \<comment> \<open>\<open>__init__\<close>\<close>
  "init_extractor = \<lparr>exclusions = {}, extensions = default_extensions\<rparr>"

fun set_extensions_loop :: "string list \<Rightarrow> string set \<Rightarrow> string set" where
  "set_extensions_loop [] acc = acc"
| "set_extensions_loop (e # es) acc =
     (let e1 = lower (strip e) in
      if e1 = [] then set_extensions_loop es acc
      else if take 1 e1 \<noteq> ''.'' then set_extensions_loop es (insert (''.'' @ e1) acc)
      else set_extensions_loop es (insert e1 acc))"

definition set_extensions :: "extractor \<Rightarrow> string list \<Rightarrow> extractor" where
  "set_extensions ex extension_list = ex\<lparr>extensions := set_extensions_loop extension_list {}\<rparr>"

definition set_exclusions :: "extractor \<Rightarrow> string list \<Rightarrow> extractor" where
  "set_exclusions ex xs =
     ex\<lparr>exclusions := DEFAULT_EXCLUSIONS \<union> set (map strip (filter (\<lambda>x. strip x \<noteq> []) xs))\<rparr>"

definition indent :: "nat \<Rightarrow> string" where
  \<comment> \<open>\<open>'    ' * indent_level\<close>\<close>
  "indent n = concat (replicate n ''    '')"

definition supported_text_exts :: "string set" where
  "supported_text_exts =
     {''.txt'', ''.py'', ''.js'', ''.jsx'', ''.ts'', ''.tsx'', ''.vue'',
      ''.html'', ''.css'', ''.json'', ''.xml'', ''.md'', ''.csv'', ''.log'',
      ''.ini'', ''.cfg'', ''.conf'', ''.sh'', ''.bat'', ''.c'', ''.cpp'', ''.h'',
      ''.java'', ''.yml'', ''.yaml''}"

definition text_stats :: "string \<Rightarrow> file_stats" where
  "text_stats file_content =
     \<lparr>words = length (split_ws file_content),
      lines = length (filter (\<lambda>c. c = CHR 0x0A) file_content),
      characters = length file_content,
      tokens = length (split_ws file_content)\<rparr>"

definition extract_file_content :: "bool \<Rightarrow> string \<Rightarrow> file_data \<Rightarrow> nat \<Rightarrow> string \<times> file_stats" where
  \<comment> \<open>the first argument is the module constant \<open>DOCX_AVAILABLE\<close>\<close>
  "extract_file_content docx_available filepath f indent_level =
     (let ext = lower (snd (splitext filepath)) in
      if ext \<in> supported_text_exts then
        (case read_text f of
           Inr file_content \<Rightarrow>
             (indent indent_level @ ''Content:'' @ [CHR 0x0A] @ file_content, text_stats file_content)
         | Inl e \<Rightarrow> (indent indent_level @ ''[Error reading text file: '' @ e @ '']'', zero_file_stats))
      else if ext \<in> {''.xlsx'', ''.xls''} then read_lib f indent_level
      else if ext = ''.ipynb'' then read_lib f indent_level
      else if ext = ''.docx'' then
        (if docx_available then read_lib f indent_level
         else (indent indent_level @ ''[python-docx not installed]'', zero_file_stats))
      else if ext = ''.pdf'' then
        (indent indent_level @ ''[PDF file (content not extracted)]'', zero_file_stats)
      else (indent indent_level @ ''[Binary or unsupported file]'', zero_file_stats))"

text \<open>
  The lines of the two reports are kept as the template each comes from and the values
  it is filled with, so that a line names the entry it is about; \<open>render_struct\<close> and
  \<open>render_content\<close> fill the template, and the reports the program returns are the
  rendered lines. The header of a file block carries the directory path and the
  entry name it joins.
\<close>

datatype struct_line =
    DirLine nat string string
  | FileLine nat string string
  | CannotOpen nat string

datatype content_line =
    FileHeader nat string string
  | TooLarge nat
  | Extracted string
  | ReadError nat string
  | TargetHeader "string list"

fun render_struct :: "struct_line \<Rightarrow> string" where
  "render_struct (DirLine indent_level folder_path item) = indent indent_level @ item @ ''/''"
| "render_struct (FileLine indent_level folder_path item) = indent indent_level @ item"
| "render_struct (CannotOpen indent_level ex) = indent indent_level @ ''[Cannot open: '' @ ex @ '']''"

fun render_content :: "content_line \<Rightarrow> string" where
  "render_content (FileHeader indent_level folder_path item) =
     [CHR 0x0A] @ indent indent_level @ ''File: '' @ path_join folder_path item"
| "render_content (TooLarge indent_level) = indent indent_level @ ''[File too large to display]''"
| "render_content (Extracted file_content) = file_content"
| "render_content (ReadError indent_level e) =
     indent indent_level @ ''[Error reading file: '' @ e @ '']''"
| "render_content (TargetHeader comps) = [CHR 0x0A] @ ''File: '' @ relpath_below comps"

definition file_step ::
  "extractor \<Rightarrow> bool \<Rightarrow> string \<Rightarrow> nat \<Rightarrow> bool \<Rightarrow> string \<Rightarrow> file_data
     \<Rightarrow> struct_line list \<times> content_line list \<times> stats
     \<Rightarrow> struct_line list \<times> content_line list \<times> stats" where
  \<comment> \<open>the \<open># Process File\<close> branch of the loop body of \<open>get_folder_structure_and_content\<close>\<close>
  "file_step ex docx_available folder_path indent_level extract_content item f acc =
     (case acc of (structure_output, content_output, st) \<Rightarrow>
      let item_path = path_join folder_path item;
          ext = lower (snd (splitext item_path))
      in if ext \<notin> extensions ex then acc
         else if \<not> extract_content
         then (structure_output @ [FileLine indent_level folder_path item], content_output, st)
         else
           (case getsize f of
              Inl e \<Rightarrow>
                (structure_output @ [FileLine indent_level folder_path item],
                 content_output @ [FileHeader indent_level folder_path item, ReadError indent_level e],
                 st)
            | Inr file_size \<Rightarrow>
                if 100 * 1024 < file_size
                then (structure_output @ [FileLine indent_level folder_path item],
                      content_output @ [FileHeader indent_level folder_path item, TooLarge indent_level],
                      st\<lparr>size_b := size_b st + file_size\<rparr>)
                else
                  (case extract_file_content docx_available item_path f indent_level of
                     (file_content, fstats) \<Rightarrow>
                       (structure_output @ [FileLine indent_level folder_path item],
                        content_output @ [FileHeader indent_level folder_path item, Extracted file_content],
                        add_file_stats (st\<lparr>size_b := size_b st + file_size\<rparr>) fstats))))"

lemma size_list_insort_key:
  "size_list f (insort_key k x xs) = Suc (f x + size_list f xs)"
  by (induction xs) auto

lemma size_list_sort_key: "size_list f (sort_key k xs) = size_list f xs"
  by (induction xs) (auto simp: size_list_insort_key)

function get_folder_structure_and_content ::
  "extractor \<Rightarrow> bool \<Rightarrow> string \<Rightarrow> nat \<Rightarrow> bool \<Rightarrow> fsnode
     \<Rightarrow> struct_line list \<times> content_line list \<times> stats"
and gfs_items ::
  "extractor \<Rightarrow> bool \<Rightarrow> string \<Rightarrow> nat \<Rightarrow> bool \<Rightarrow> (string \<times> fsnode) list
     \<Rightarrow> struct_line list \<times> content_line list \<times> stats
     \<Rightarrow> struct_line list \<times> content_line list \<times> stats"
where
  "get_folder_structure_and_content ex da folder_path indent_level extract_content (Dir entries) =
     gfs_items ex da folder_path indent_level extract_content (sort_key fst entries)
       ([], [], zero_stats)"
| "get_folder_structure_and_content ex da folder_path indent_level extract_content (Link entries) =
     gfs_items ex da folder_path indent_level extract_content (sort_key fst entries)
       ([], [], zero_stats)"
| "get_folder_structure_and_content ex da folder_path indent_level extract_content (DirError msg) =
     ([CannotOpen indent_level msg], [], zero_stats)"
| "get_folder_structure_and_content ex da folder_path indent_level extract_content (File f) =
     ([CannotOpen indent_level (listdir_error f)], [], zero_stats)"
| "gfs_items ex da folder_path indent_level extract_content [] acc = acc"
| "gfs_items ex da folder_path indent_level extract_content ((item, node) # items) acc =
     (if item \<in> exclusions ex
      then gfs_items ex da folder_path indent_level extract_content items acc
      else
        (case node of
           File f \<Rightarrow>
             gfs_items ex da folder_path indent_level extract_content items
               (file_step ex da folder_path indent_level extract_content item f acc)
         | _ \<Rightarrow>
             (case acc of (structure_output, content_output, st) \<Rightarrow>
              case get_folder_structure_and_content ex da (path_join folder_path item)
                     (indent_level + 1) extract_content node of
                (sub_structure, sub_content, sub_stats) \<Rightarrow>
                  gfs_items ex da folder_path indent_level extract_content items
                    (structure_output @ [DirLine indent_level folder_path item] @ sub_structure,
                     content_output @ sub_content,
                     add_stats st sub_stats))))"
  by pat_completeness auto
termination
  by (relation "measure (\<lambda>x. case x of
         Inl (ex, da, fp, il, ec, node) \<Rightarrow> size node
       | Inr (ex, da, fp, il, ec, items, acc) \<Rightarrow> size_list (size_prod (\<lambda>_. 0) size) items)")
     (auto simp: size_list_sort_key)

definition separator :: string where
  "separator = [CHR 0x0A] @ replicate 38 CHR ''#'' @ [CHR 0x0A]"

definition build_context :: "extractor \<Rightarrow> bool \<Rightarrow> string \<Rightarrow> bool \<Rightarrow> fsnode \<Rightarrow> string \<times> extractor" where
  \<comment> \<open>returns the report and the extractor, whose \<open>exclusions\<close> the call reassigns;
      \<open>tree\<close> is the file system at \<open>folder_path\<close>\<close>
  "build_context ex da folder_path extract_content tree =
     (let ex' = ex\<lparr>exclusions := DEFAULT_EXCLUSIONS \<union> exclusions ex\<rparr> in
      case get_folder_structure_and_content ex' da folder_path 0 extract_content tree of
        (struct, cont, st) \<Rightarrow>
          (strip (join [CHR 0x0A]
             ([''FOLDER STRUCTURE:''] @ map render_struct struct @
              (if extract_content
               then [separator, ''FILE CONTENTS:''] @ map render_content cont @
                    [separator,
                     ''Statistics: '' @ str_nat (words st) @ '' words, '' @ str_nat (lines st)
                       @ '' lines, '' @ str_nat (characters st) @ '' chars, ~''
                       @ str_nat (tokens st) @ '' tokens. Size: ''
                       @ human_readable_size (of_nat (size_b st))]
               else []))),
           ex'))"

definition target_step ::
  "extractor \<Rightarrow> bool \<Rightarrow> string list \<Rightarrow> string \<Rightarrow> string list \<Rightarrow> string \<Rightarrow> file_data
     \<Rightarrow> content_line list \<times> stats \<Rightarrow> content_line list \<times> stats" where
  \<comment> \<open>the body of \<open>for file in files\<close> in \<open>build_targeted_context\<close>; \<open>root'\<close> is the directory
      path \<open>os.walk\<close> yields and \<open>rel\<close> its components below \<open>folder_path\<close>\<close>
  "target_step ex da clean_targets root' rel file f acc =
     (case acc of (content_output, st) \<Rightarrow>
      if file \<in> exclusions ex then acc
      else
        let full_path = path_join root' file;
            rel_path = relpath_below (rel @ [file])
        in if lower (normpath rel_path) \<in> set clean_targets \<or> lower file \<in> set clean_targets
           then (case extract_file_content da full_path f 1 of
                   (file_content, fstats) \<Rightarrow>
                     (content_output @ [TargetHeader (rel @ [file]), Extracted file_content],
                      add_file_stats st fstats))
           else acc)"

fun target_files ::
  "extractor \<Rightarrow> bool \<Rightarrow> string list \<Rightarrow> string \<Rightarrow> string list \<Rightarrow> (string \<times> fsnode) list
     \<Rightarrow> content_line list \<times> stats \<Rightarrow> content_line list \<times> stats" where
  \<comment> \<open>\<open>for file in files\<close>: the entries of the directory that are not directories\<close>
  "target_files ex da clean_targets root' rel [] acc = acc"
| "target_files ex da clean_targets root' rel ((file, node) # entries) acc =
     (case node of
        File f \<Rightarrow>
          target_files ex da clean_targets root' rel entries
            (target_step ex da clean_targets root' rel file f acc)
      | _ \<Rightarrow> target_files ex da clean_targets root' rel entries acc)"

lemma size_list_filter_le: "size_list f (filter P xs) \<le> size_list f xs"
  by (induction xs) auto

function walk_targets ::
  "extractor \<Rightarrow> bool \<Rightarrow> string list \<Rightarrow> string \<Rightarrow> string list \<Rightarrow> fsnode
     \<Rightarrow> content_line list \<times> stats \<Rightarrow> content_line list \<times> stats"
and walk_target_dirs ::
  "extractor \<Rightarrow> bool \<Rightarrow> string list \<Rightarrow> string \<Rightarrow> string list \<Rightarrow> (string \<times> fsnode) list
     \<Rightarrow> content_line list \<times> stats \<Rightarrow> content_line list \<times> stats"
where
  \<comment> \<open>\<open>for root, dirs, files in os.walk(folder_path)\<close> with \<open>dirs[:]\<close> pruned: the files
      of a directory first, then each kept subdirectory in turn; a directory that
      cannot be listed yields nothing. \<open>followlinks\<close> is left at its default, so a kept
      subdirectory that is a symbolic link is not walked; the top directory is walked
      whether it is a link or not\<close>
  "walk_targets ex da clean_targets root' rel (Dir entries) acc =
     walk_target_dirs ex da clean_targets root' rel
       (filter (\<lambda>(d, node). isdir node \<and> d \<notin> exclusions ex) entries)
       (target_files ex da clean_targets root' rel entries acc)"
| "walk_targets ex da clean_targets root' rel (Link entries) acc =
     walk_target_dirs ex da clean_targets root' rel
       (filter (\<lambda>(d, node). isdir node \<and> d \<notin> exclusions ex) entries)
       (target_files ex da clean_targets root' rel entries acc)"
| "walk_targets ex da clean_targets root' rel (DirError msg) acc = acc"
| "walk_targets ex da clean_targets root' rel (File f) acc = acc"
| "walk_target_dirs ex da clean_targets root' rel [] acc = acc"
| "walk_target_dirs ex da clean_targets root' rel ((d, node) # dirs) acc =
     (if islink node then walk_target_dirs ex da clean_targets root' rel dirs acc
      else walk_target_dirs ex da clean_targets root' rel dirs
             (walk_targets ex da clean_targets (path_join root' d) (rel @ [d]) node acc))"
  by pat_completeness auto
termination
  by (relation "measure (\<lambda>x. case x of
         Inl (ex, da, ct, rp, rel, node, acc) \<Rightarrow> size node
       | Inr (ex, da, ct, rp, rel, dirs, acc) \<Rightarrow> size_list (size_prod (\<lambda>_. 0) size) dirs)")
     (auto simp: less_Suc_eq_le size_list_filter_le)

definition build_targeted_context ::
  "extractor \<Rightarrow> bool \<Rightarrow> string \<Rightarrow> string list \<Rightarrow> fsnode \<Rightarrow> string \<times> extractor" where
  "build_targeted_context ex da folder_path target_files_arg tree =
     (let ex' = ex\<lparr>exclusions := DEFAULT_EXCLUSIONS \<union> exclusions ex\<rparr> in
      case get_folder_structure_and_content ex' da folder_path 0 False tree of
        (struct, _, _) \<Rightarrow>
          let clean_targets = map (\<lambda>f. lower (normpath f)) target_files_arg in
          case walk_targets ex' da clean_targets folder_path [] tree ([], zero_stats) of
            (content_output, st) \<Rightarrow>
              (strip (join [CHR 0x0A]
                 ([''FOLDER STRUCTURE (Full):''] @ map render_struct struct @
                  [separator,
                   ''SELECTED RELEVANT FILE CONTENTS ('' @ str_nat (length content_output div 2)
                     @ '' files):''] @
                  map render_content content_output @
                  [separator, ''Targeted Stats: ~'' @ str_nat (tokens st) @ '' tokens.''])),
               ex'))"

section \<open>The retrieval escalation (\<open>HolaIbotApp\<close>, main.py)\<close>

text \<open>
  The value \<open>json.loads\<close> returns. Only its shape is inspected by the program; a
  float is kept as its text.
\<close>

datatype py_value =
    PyNone
  | PyBool bool
  | PyInt int
  | PyFloat string
  | PyStr string
  | PyList "py_value list"
  | PyDict "(string \<times> py_value) list"

text \<open>
  What the program takes from its surroundings: \<open>json_loads\<close> is the library function
  \<open>json.loads\<close> (\<open>Inl (str e)\<close> when it raises), \<open>docx_available\<close> the module constant
  \<open>DOCX_AVAILABLE\<close> and \<open>disk\<close> the file system below \<open>loaded_path\<close>.
\<close>

record host =
  json_loads :: "string \<Rightarrow> string + py_value"
  docx_available :: bool
  disk :: fsnode

text \<open>
  A \<open>GptWorker\<close> is the request it sends and the slot its \<open>finished\<close> signal is
  connected to. What is appended to the response pane is kept as the call that
  appended it; how it is drawn belongs to the presentation layer.
\<close>

datatype slot = OnFilterResponse | OnGptResponse

record worker =
  messages :: "(string \<times> string) list"
  model_name :: string
  slot :: slot

datatype ui_item =
    AgentMessage string string string
  | UserPrompt string
  | PlainText string
  | WorkerHeader
  | GptOutput string

text \<open>
  The fields of the application the query logic reads and writes. \<open>ask_enabled\<close> is the
  state of \<open>askButton\<close>, \<open>response_log\<close> the content of \<open>responseEdit\<close>, and \<open>started\<close>
  records every worker the application has started, in order (the model calls issued).
  An exception that leaves a slot uncaught is \<open>Raised\<close> with the state at that point.
\<close>

record app =
  extractor :: extractor
  chat_history :: "(string \<times> string) list"
  loaded_context :: string
  loaded_path :: string
  mode_show_prompt :: bool
  current_query_attempt :: int
  current_user_prompt :: string
  is_smart_filtering :: bool
  gpt_worker :: "worker option"
  ask_enabled :: bool
  response_log :: "ui_item list"
  started :: "worker list"

datatype 'a outcome = Returned 'a | Raised string 'a

fun final :: "'a outcome \<Rightarrow> 'a" where
  "final (Returned s) = s"
| "final (Raised e s) = s"

definition display_agent_message :: "app \<Rightarrow> string \<Rightarrow> string \<Rightarrow> string \<Rightarrow> app" where
  "display_agent_message s prefix message color =
     s\<lparr>response_log := response_log s @ [AgentMessage prefix message color]\<rparr>"

definition build_system_prompt :: "string \<Rightarrow> string" where
  "build_system_prompt specific_context =
     ''You are an expert coding assistant.'' @ [CHR 0x0A] @
     ''Project context:'' @ [CHR 0x0A] @
     ''#####'' @ [CHR 0x0A] @
     specific_context @ [CHR 0x0A] @
     ''#####'' @ [CHR 0x0A] @
     ''If the context above is just a structure, it means the project is too large. ''
       @ ''Do your best with just filenames.'' @ [CHR 0x0A]"

definition send_to_worker :: "app \<Rightarrow> string \<Rightarrow> app" where
  "send_to_worker s context_content =
     (let s1 = s\<lparr>is_smart_filtering := False\<rparr>;
          w = \<lparr>messages = (''system'', build_system_prompt context_content) # chat_history s1,
               model_name = ''gpt-5.1'', slot = OnGptResponse\<rparr>;
          s2 = display_agent_message s1 ''Worker (GPT-5.1)'' ''Transmitting request...'' ''#8ede64''
      in s2\<lparr>gpt_worker := Some w, started := started s2 @ [w]\<rparr>)"

definition brain_prompt :: "string \<Rightarrow> string \<Rightarrow> bool \<Rightarrow> string" where
  "brain_prompt context user_prompt aggressive =
     (let instruction =
            (if aggressive
             then ''Select ONLY the top 5 absolute most critical files needed to answer. ''
                    @ ''Be extremely strict.''
             else ''Select all files that might be relevant to the user request.'')
      in [CHR 0x0A] @ ''You are the Context Optimizer. '' @ [CHR 0x0A] @
         ''Project Structure:'' @ [CHR 0x0A] @
         context @ [CHR 0x0A] @ [CHR 0x0A] @
         ''User Request: '' @ [CHR 0x22] @ user_prompt @ [CHR 0x22] @ [CHR 0x0A] @ [CHR 0x0A] @
         ''Task: '' @ instruction @ [CHR 0x0A] @
         ''Return a JSON list of file paths (strings) relative to root. Example: [''
           @ [CHR 0x22] @ ''src/main.py'' @ [CHR 0x22] @ '', '' @ [CHR 0x22] @ ''utils.py''
           @ [CHR 0x22] @ '']'' @ [CHR 0x0A] @
         ''Do not write markdown, just the JSON array.'' @ [CHR 0x0A])"

definition run_mini_filter :: "app \<Rightarrow> bool \<Rightarrow> app" where
  "run_mini_filter s aggressive =
     (let s1 = s\<lparr>is_smart_filtering := True\<rparr>;
          w = \<lparr>messages = [(''user'',
                   brain_prompt (loaded_context s1) (current_user_prompt s1) aggressive)],
               model_name = ''gpt-5-mini'', slot = OnFilterResponse\<rparr>
      in s1\<lparr>gpt_worker := Some w, started := started s1 @ [w]\<rparr>)"

definition str_int :: "int \<Rightarrow> string" where
  "str_int i = (if i < 0 then ''-'' @ str_nat (nat (- i)) else str_nat (nat i))"

definition execute_smart_query_step :: "app \<Rightarrow> app" where
  "execute_smart_query_step s =
     (if current_query_attempt s = 1 then
        run_mini_filter
          (display_agent_message s ''Brain'' ''Analyzing query to select relevant files...''
             ''#F2B134'')
          False
      else if current_query_attempt s = 2 then
        run_mini_filter
          (display_agent_message s
             (''Brain (Attempt '' @ str_int (current_query_attempt s) @ '')'')
             ''Previous context too large. Switching to aggressive filtering...'' ''#FFA500'')
          True
      else if current_query_attempt s = 3 then
        (let s1 = display_agent_message s
                    (''Brain (Attempt '' @ str_int (current_query_attempt s) @ '')'')
                    ''Still failing. Sending structure ONLY (No file content).'' ''#FF6347''
         in send_to_worker s1 (loaded_context s1))
      else
        (display_agent_message s ''System''
           (''Error: Project is too voluminous. ''
              @ ''Even structure-only failed or max retries reached.'') ''#FF0000'')
          \<lparr>ask_enabled := True\<rparr>)"

definition rate_limit_marker :: string where
  "rate_limit_marker = ''API Error (429)''"

definition on_gpt_response :: "app \<Rightarrow> string \<Rightarrow> app" where
  "on_gpt_response s response =
     (let s0 = s\<lparr>gpt_worker := None\<rparr> in
      if contains rate_limit_marker response then
        (let s1 = display_agent_message s0 ''System'' ''Rate Limit (429) exceeded.'' ''#FF6347''
         in execute_smart_query_step
              (s1\<lparr>current_query_attempt := current_query_attempt s1 + 1\<rparr>))
      else
        (let s1 = display_agent_message (s0\<lparr>ask_enabled := True\<rparr>)
                    ''Worker (GPT-5.1)'' ''Response received.'' ''#87CEEB''
         in s1\<lparr>chat_history := chat_history s1 @ [(''assistant'', response)],
               response_log := response_log s1 @ [WorkerHeader, GptOutput response]\<rparr>))"

definition bracket_span :: "string \<Rightarrow> string option" where
  \<comment> \<open>\<open>re.search(r'\[.*\]', s, re.DOTALL)\<close>: from the first opening bracket to the
      last closing bracket after it\<close>
  "bracket_span s =
     (let rest = dropWhile (\<lambda>c. c \<noteq> CHR ''['') s in
      if rest = [] then None
      else let j = rfind CHR '']'' rest
           in if 0 < j then Some (take (nat j + 1) rest) else None)"

definition parse_file_list :: "host \<Rightarrow> string \<Rightarrow> string + py_value list" where
  \<comment> \<open>the first \<open>try\<close> block of \<open>on_filter_response\<close>: \<open>Inl (str e)\<close> when it raises\<close>
  "parse_file_list h response =
     (let clean_resp = strip response;
          clean_resp' =
            (if contains [CHR 0x60, CHR 0x60, CHR 0x60] clean_resp
             then (case bracket_span clean_resp of Some m \<Rightarrow> m | None \<Rightarrow> clean_resp)
             else clean_resp)
      in case json_loads h clean_resp' of
           Inl e \<Rightarrow> Inl e
         | Inr (PyList relevant_files) \<Rightarrow> Inr relevant_files
         | Inr _ \<Rightarrow> Inl ''Not a list'')"

fun is_str :: "py_value \<Rightarrow> bool" where
  "is_str (PyStr x) = True"
| "is_str _ = False"

fun the_str :: "py_value \<Rightarrow> string" where
  "the_str (PyStr x) = x"
| "the_str _ = []"

fun type_name :: "py_value \<Rightarrow> string" where
  "type_name PyNone = ''NoneType''"
| "type_name (PyBool b) = ''bool''"
| "type_name (PyInt i) = ''int''"
| "type_name (PyFloat x) = ''float''"
| "type_name (PyStr x) = ''str''"
| "type_name (PyList xs) = ''list''"
| "type_name (PyDict kvs) = ''dict''"

definition on_filter_response :: "host \<Rightarrow> app \<Rightarrow> string \<Rightarrow> app outcome" where
  "on_filter_response h s response =
     (let s0 = s\<lparr>gpt_worker := None\<rparr> in
      case parse_file_list h response of
        Inl e \<Rightarrow>
          (let s1 = display_agent_message s0 ''Brain (Error)''
                      (''Failed to parse file list: '' @ e @ ''. Using structure only fallback.'')
                      ''#F2B134''
           in Returned (send_to_worker s1 (loaded_context s1)))
      | Inr relevant_files \<Rightarrow>
          \<comment> \<open>\<open>', '.join(relevant_files[:3])\<close>, outside both \<open>try\<close> blocks\<close>
          if \<not> list_all is_str (take 3 relevant_files) then Raised ''TypeError'' s0
          else
            (let s1 = display_agent_message s0 ''Brain''
                        (''Selected '' @ str_nat (length relevant_files) @ '' files: ''
                           @ join '', '' (map the_str (take 3 relevant_files)) @ ''...'')
                        ''#87CEEB''
             in \<comment> \<open>\<open>os.path.normpath(f)\<close> raises on the first target that is not a string,
                    after \<open>build_targeted_context\<close> has reassigned the exclusions\<close>
                case filter (\<lambda>v. \<not> is_str v) relevant_files of
                  v # _ \<Rightarrow>
                    Returned
                      ((display_agent_message
                          (s1\<lparr>extractor := (extractor s1)
                                \<lparr>exclusions := DEFAULT_EXCLUSIONS \<union> exclusions (extractor s1)\<rparr>\<rparr>)
                          ''System''
                          (''Error building context: expected str, bytes or os.PathLike object, not ''
                             @ type_name v)
                          ''#FF0000'')
                        \<lparr>ask_enabled := True\<rparr>)
                | [] \<Rightarrow>
                    (case build_targeted_context (extractor s1) (docx_available h) (loaded_path s1)
                            (map the_str relevant_files) (disk h) of
                       (custom_context, ex') \<Rightarrow>
                         Returned (send_to_worker (s1\<lparr>extractor := ex'\<rparr>) custom_context))))"



text \<open>
  A finished worker delivers its reply to the slot it is connected to; \<open>run\<close> delivers
  a sequence of replies, each to the worker then pending, and stops at an uncaught
  exception. \<open>rate_limited\<close> counts, along the same run, the main-model replies that
  carry the rate-limit marker.
\<close>

definition deliver :: "host \<Rightarrow> app \<Rightarrow> string \<Rightarrow> app outcome" where
  "deliver h s response =
     (case gpt_worker s of
        None \<Rightarrow> Returned s
      | Some w \<Rightarrow>
          (case slot w of
             OnFilterResponse \<Rightarrow> on_filter_response h s response
           | OnGptResponse \<Rightarrow> Returned (on_gpt_response s response)))"

fun run :: "host \<Rightarrow> app \<Rightarrow> string list \<Rightarrow> app outcome" where
  "run h s [] = Returned s"
| "run h s (response # responses) =
     (case deliver h s response of
        Returned s' \<Rightarrow> run h s' responses
      | Raised e s' \<Rightarrow> Raised e s')"

definition is_limited :: "app \<Rightarrow> string \<Rightarrow> bool" where
  "is_limited s response =
     (case gpt_worker s of
        None \<Rightarrow> False
      | Some w \<Rightarrow> slot w = OnGptResponse \<and> contains rate_limit_marker response)"

fun rate_limited :: "host \<Rightarrow> app \<Rightarrow> string list \<Rightarrow> nat" where
  "rate_limited h s [] = 0"
| "rate_limited h s (response # responses) =
     (if is_limited s response then 1 else 0)
     + (case deliver h s response of
          Returned s' \<Rightarrow> rate_limited h s' responses
        | Raised e s' \<Rightarrow> 0)"

definition calls_since :: "app \<Rightarrow> app \<Rightarrow> slot list" where
  \<comment> \<open>the kinds of the model calls issued between two states of one run\<close>
  "calls_since s0 s = map slot (drop (length (started s0)) (started s))"

section \<open>Notions the properties of the walks are stated with\<close>

text \<open>
  \<open>prune X\<close> removes, at every level of a tree, the entries whose name is in \<open>X\<close>.
  \<open>sl_ok\<close> and \<open>cl_ok\<close> say of a report line that the entry it is about is not excluded
  and, for a file, that its lower-cased extension is in the allowlist.
\<close>

fun prune :: "string set \<Rightarrow> fsnode \<Rightarrow> fsnode"
and prune_entries :: "string set \<Rightarrow> (string \<times> fsnode) list \<Rightarrow> (string \<times> fsnode) list" where
  "prune X (Dir entries) = Dir (prune_entries X entries)"
| "prune X (File f) = File f"
| "prune X (DirError msg) = DirError msg"
| "prune X (Link entries) = Link (prune_entries X entries)"
| "prune_entries X [] = []"
| "prune_entries X ((item, node) # entries) =
     (if item \<in> X then prune_entries X entries
      else (item, prune X node) # prune_entries X entries)"

fun sl_ok :: "extractor \<Rightarrow> struct_line \<Rightarrow> bool" where
  "sl_ok ex (DirLine il fp item) = (item \<notin> exclusions ex)"
| "sl_ok ex (FileLine il fp item) =
     (item \<notin> exclusions ex \<and> lower (snd (splitext (path_join fp item))) \<in> extensions ex)"
| "sl_ok ex (CannotOpen il msg) = True"

fun cl_ok :: "extractor \<Rightarrow> content_line \<Rightarrow> bool" where
  "cl_ok ex (FileHeader il fp item) =
     (item \<notin> exclusions ex \<and> lower (snd (splitext (path_join fp item))) \<in> extensions ex)"
| "cl_ok ex (TargetHeader comps) = False"
| "cl_ok ex _ = True"

definition lines_ok :: "extractor \<Rightarrow> struct_line list \<times> content_line list \<times> stats \<Rightarrow> bool" where
  "lines_ok ex acc = ((\<forall>l \<in> set (fst acc). sl_ok ex l) \<and> (\<forall>l \<in> set (fst (snd acc)). cl_ok ex l))"


text \<open>
  \<open>file_at follow tree comps f\<close>: the file \<open>f\<close> is in the tree under the names \<open>comps\<close>
  below the root. With \<open>follow\<close> the path may pass through symbolic links to
  directories; without it, no directory on the path below the root is a link.
\<close>

fun file_at :: "bool \<Rightarrow> fsnode \<Rightarrow> string list \<Rightarrow> file_data \<Rightarrow> bool"
and file_in :: "bool \<Rightarrow> (string \<times> fsnode) list \<Rightarrow> string list \<Rightarrow> file_data \<Rightarrow> bool" where
  "file_at follow (Dir entries) comps f = file_in follow entries comps f"
| "file_at follow (Link entries) comps f = file_in follow entries comps f"
| "file_at follow (File g) comps f = False"
| "file_at follow (DirError msg) comps f = False"
| "file_in follow [] comps f = False"
| "file_in follow ((n, node) # entries) [] f = False"
| "file_in follow ((n, node) # entries) (c # rest) f =
     ((c = n \<and> (if rest = [] then node = File f
                 else (follow \<or> \<not> islink node) \<and> file_at follow node rest f))
      \<or> file_in follow entries (c # rest) f)"

text \<open>
  For full extraction with content: \<open>listed_files\<close> are the files the walk lists, each
  with its indent level, directory path and name, in the order of the walk;
  \<open>content_block\<close> is the pair of content lines of a listed file and \<open>contribution\<close>
  what it adds to the counters; \<open>total_stats\<close> adds contributions up.
\<close>

function listed_files ::
  "extractor \<Rightarrow> string \<Rightarrow> nat \<Rightarrow> fsnode \<Rightarrow> (nat \<times> string \<times> string \<times> file_data) list"
and listed_in ::
  "extractor \<Rightarrow> string \<Rightarrow> nat \<Rightarrow> (string \<times> fsnode) list
     \<Rightarrow> (nat \<times> string \<times> string \<times> file_data) list"
where
  "listed_files ex fp il (Dir entries) = listed_in ex fp il (sort_key fst entries)"
| "listed_files ex fp il (Link entries) = listed_in ex fp il (sort_key fst entries)"
| "listed_files ex fp il (DirError msg) = []"
| "listed_files ex fp il (File f) = []"
| "listed_in ex fp il [] = []"
| "listed_in ex fp il ((item, node) # items) =
     (if item \<in> exclusions ex then listed_in ex fp il items
      else
        (case node of
           File f \<Rightarrow>
             (if lower (snd (splitext (path_join fp item))) \<in> extensions ex
              then (il, fp, item, f) # listed_in ex fp il items
              else listed_in ex fp il items)
         | _ \<Rightarrow> listed_files ex (path_join fp item) (il + 1) node @ listed_in ex fp il items))"
  by pat_completeness auto
termination
  by (relation "measure (\<lambda>x. case x of
         Inl (ex, fp, il, node) \<Rightarrow> size node
       | Inr (ex, fp, il, items) \<Rightarrow> size_list (size_prod (\<lambda>_. 0) size) items)")
     (auto simp: size_list_sort_key)

definition content_block :: "bool \<Rightarrow> nat \<times> string \<times> string \<times> file_data \<Rightarrow> content_line list" where
  "content_block da x =
     (case x of (il, fp, item, f) \<Rightarrow>
        [FileHeader il fp item,
         (case getsize f of
            Inl e \<Rightarrow> ReadError il e
          | Inr file_size \<Rightarrow>
              if 100 * 1024 < file_size then TooLarge il
              else Extracted (fst (extract_file_content da (path_join fp item) f il)))])"

definition contribution :: "bool \<Rightarrow> nat \<times> string \<times> string \<times> file_data \<Rightarrow> stats" where
  "contribution da x =
     (case x of (il, fp, item, f) \<Rightarrow>
        (case getsize f of
           Inl e \<Rightarrow> zero_stats
         | Inr file_size \<Rightarrow>
             if 100 * 1024 < file_size then zero_stats\<lparr>size_b := file_size\<rparr>
             else add_file_stats (zero_stats\<lparr>size_b := file_size\<rparr>)
                    (snd (extract_file_content da (path_join fp item) f il))))"

fun total_stats :: "stats list \<Rightarrow> stats" where
  "total_stats [] = zero_stats"
| "total_stats (x # xs) = add_stats x (total_stats xs)"

text \<open>
  For targeted extraction: \<open>walked_files\<close> lists the files \<open>os.walk\<close> yields, each with
  its names below the root, a directory's own files before those of its subdirectories
  and no file below a subdirectory that is a symbolic link; a file is \<open>selected\<close> when
  no name on its path is excluded and its normalised relative path or its bare name
  equals a normalised target, both lower-cased; \<open>target_block\<close> is the pair of content
  lines of a selected file and \<open>targeted_content\<close> the content list and counters
  \<open>build_targeted_context\<close> computes.
\<close>

fun files_here :: "string list \<Rightarrow> (string \<times> fsnode) list \<Rightarrow> (string list \<times> file_data) list" where
  "files_here rel [] = []"
| "files_here rel ((n, node) # entries) =
     (case node of
        File f \<Rightarrow> (rel @ [n], f) # files_here rel entries
      | _ \<Rightarrow> files_here rel entries)"

fun walked_files :: "string list \<Rightarrow> fsnode \<Rightarrow> (string list \<times> file_data) list"
and walked_subdirs :: "string list \<Rightarrow> (string \<times> fsnode) list \<Rightarrow> (string list \<times> file_data) list" where
  "walked_files rel (Dir entries) = files_here rel entries @ walked_subdirs rel entries"
| "walked_files rel (Link entries) = files_here rel entries @ walked_subdirs rel entries"
| "walked_files rel (File f) = []"
| "walked_files rel (DirError msg) = []"
| "walked_subdirs rel [] = []"
| "walked_subdirs rel ((d, node) # entries) =
     (if islink node then walked_subdirs rel entries
      else walked_files (rel @ [d]) node @ walked_subdirs rel entries)"

definition target_match :: "string list \<Rightarrow> string list \<Rightarrow> bool" where
  "target_match targets comps =
     (\<exists>t \<in> set targets. lower (normpath (join ''/'' comps)) = lower (normpath t)
                       \<or> lower (last comps) = lower (normpath t))"

definition selected :: "string set \<Rightarrow> string list \<Rightarrow> string list \<times> file_data \<Rightarrow> bool" where
  "selected X targets cf = ((\<forall>c \<in> set (fst cf). c \<notin> X) \<and> target_match targets (fst cf))"

definition selected_files ::
  "string set \<Rightarrow> string list \<Rightarrow> fsnode \<Rightarrow> (string list \<times> file_data) list" where
  "selected_files X targets tree = filter (selected X targets) (walked_files [] tree)"

definition target_extract :: "bool \<Rightarrow> string \<Rightarrow> string list \<times> file_data \<Rightarrow> string \<times> file_stats" where
  "target_extract da folder_path cf =
     extract_file_content da (foldl path_join folder_path (fst cf)) (snd cf) 1"

definition target_block :: "bool \<Rightarrow> string \<Rightarrow> string list \<times> file_data \<Rightarrow> content_line list" where
  "target_block da folder_path cf =
     [TargetHeader (fst cf), Extracted (fst (target_extract da folder_path cf))]"

definition targeted_content ::
  "extractor \<Rightarrow> bool \<Rightarrow> string \<Rightarrow> string list \<Rightarrow> fsnode \<Rightarrow> content_line list \<times> stats" where
  "targeted_content ex da folder_path targets tree =
     walk_targets (ex\<lparr>exclusions := DEFAULT_EXCLUSIONS \<union> exclusions ex\<rparr>) da
       (map (\<lambda>f. lower (normpath f)) targets) folder_path [] tree ([], zero_stats)"

definition add_selected ::
  "string set \<Rightarrow> string list \<Rightarrow> bool \<Rightarrow> string \<Rightarrow> (string list \<times> file_data) list
     \<Rightarrow> content_line list \<times> stats \<Rightarrow> content_line list \<times> stats" where
  "add_selected X targets da fp L acc =
     (fst acc @ concat (map (target_block da fp) (filter (selected X targets) L)),
      foldl add_file_stats (snd acc)
        (map (\<lambda>cf. snd (target_extract da fp cf)) (filter (selected X targets) L)))"

text \<open>A small project tree for the concrete instances.\<close>

definition sample_file :: "nat \<Rightarrow> string \<Rightarrow> fsnode" where
  "sample_file n txt =
     File \<lparr>getsize = Inr n, read_text = Inr txt,
           read_lib = (\<lambda>_. ([], zero_file_stats)),
           listdir_error = ''[Errno 20] Not a directory''\<rparr>"

definition sample_tree :: fsnode where
  "sample_tree =
     Dir [(''src'', Dir [(''main.py'', sample_file 11 ''hello world''),
                         (''Makefile'', sample_file 9 ''all: main''),
                         (''notes.xyz'', sample_file 5 ''notes'')]),
          (''.git'', Dir [(''config.py'', sample_file 3 ''x=1'')]),
          (''big.txt'', sample_file 153600 ''x y z''),
          (''a.py'', sample_file 11 ''hello world''),
          (''secret.txt'', sample_file 4 ''key!'')]"

text \<open>
  A tree with a large file in a subdirectory, and a tree with a directory that holds a
  log file (an extension outside the allowlist of \<open>sample_extractor\<close>) and a symbolic
  link to that directory.
\<close>

definition sample_deep_tree :: fsnode where
  "sample_deep_tree =
     Dir [(''docs'', Dir [(''big.txt'', sample_file (150 * 1024) ''x y z''),
                          (''note.txt'', sample_file 9 ''one two'')]),
          (''a.py'', sample_file 11 ''hello world'')]"

definition sample_link_entries :: "(string \<times> fsnode) list" where
  "sample_link_entries = [(''x.py'', sample_file 5 ''x = 1''), (''run.log'', sample_file 4 ''done'')]"

definition sample_link_tree :: fsnode where
  "sample_link_tree =
     Dir [(''real'', Dir sample_link_entries),
          (''link'', Link sample_link_entries),
          (''top.py'', sample_file 8 ''import x'')]"

definition sample_targets :: "string list" where
  "sample_targets = [''./SRC/notes.xyz'', ''BIG.txt'', ''config.py'']"

definition sample_extractor :: extractor where
  \<comment> \<open>the extractor after \<open>set_extensions(['py', 'txt'])\<close> and one user exclusion\<close>
  "sample_extractor = \<lparr>exclusions = {''secret.txt''}, extensions = {''.py'', ''.txt''}\<rparr>"






definition sample_429 :: string where
  "sample_429 = ''API Error (429): Request too large''"

text \<open>
  The order of the calls of a query that is rate-limited three times, and the relation
  the escalation keeps between the attempt counter, the pending worker and the calls
  issued since the query began, \<open>n\<close> being the number of rate-limited replies so far.
\<close>

definition call_pattern :: "slot list" where
  "call_pattern =
     [OnFilterResponse, OnGptResponse, OnFilterResponse, OnGptResponse, OnGptResponse]"

definition terminal_message :: ui_item where
  "terminal_message =
     AgentMessage ''System''
       (''Error: Project is too voluminous. ''
          @ ''Even structure-only failed or max retries reached.'') ''#FF0000''"

definition esc_inv :: "app \<Rightarrow> app \<Rightarrow> nat \<Rightarrow> bool" where
  "esc_inv s0 s n =
     (current_query_attempt s = 1 + int n
      \<and> length (started s0) \<le> length (started s)
      \<and> (case gpt_worker s of
            Some w \<Rightarrow>
              (if slot w = OnFilterResponse
               then n \<le> 1 \<and> calls_since s0 s = take (2 * n + 1) call_pattern
               else n \<le> 2 \<and> calls_since s0 s = take (2 * n + 2) call_pattern)
          | None \<Rightarrow>
              (n \<le> 1 \<and> (calls_since s0 s = take (2 * n + 1) call_pattern
                          \<or> calls_since s0 s = take (2 * n + 2) call_pattern))
              \<or> (n = 2 \<and> calls_since s0 s = call_pattern)
              \<or> (n = 3 \<and> calls_since s0 s = call_pattern \<and> ask_enabled s
                  \<and> response_log s \<noteq> [] \<and> last (response_log s) = terminal_message)))"

section \<open>Size humanization\<close>

lemma hrs_unit:
  fixes x :: rat
  assumes "k < 5" "x < 1024 ^ (k + 1)" "k = 0 \<or> 1024 ^ k \<le> x"
  shows "human_readable_size x = fmt_1f (x / 1024 ^ k) @ '' '' @ unit_names ! k"
proof -
  from assms(1) consider "k = 0" | "k = 1" | "k = 2" | "k = 3" | "k = 4" by linarith
  then show ?thesis
  proof cases
    case 1 with assms show ?thesis by (simp add: human_readable_size_def unit_names_def)
  next
    case 2 with assms show ?thesis by (simp add: human_readable_size_def unit_names_def)
  next
    case 3 with assms show ?thesis by (simp add: human_readable_size_def unit_names_def)
  next
    case 4 with assms show ?thesis by (simp add: human_readable_size_def unit_names_def)
  next
    case 5 with assms show ?thesis by (simp add: human_readable_size_def unit_names_def)
  qed
qed

lemma hrs_pb:
  fixes x :: rat
  assumes "1024 ^ 5 \<le> x"
  shows "human_readable_size x = fmt_1f (x / 1024 ^ 5) @ '' '' @ unit_names ! 5"
  using assms by (simp add: human_readable_size_def unit_names_def)

lemma fmt_1f_round:
  fixes x :: rat
  assumes "0 \<le> x"
  shows "\<exists>t. fmt_1f x = str_nat (t div 10) @ ''.'' @ [digit_char (t mod 10)]
           \<and> \<bar>of_nat t - 10 * x\<bar> \<le> 1 / 2"
proof -
  define a where "a = x * 10"
  define q where "q = nat \<lfloor>a\<rfloor>"
  define r where "r = a - of_nat q"
  have a0: "0 \<le> a" using assms by (simp add: a_def)
  then have qa: "of_nat q = (of_int \<lfloor>a\<rfloor> :: rat)" by (simp add: q_def)
  have r0: "0 \<le> r" "r < 1" unfolding r_def qa by linarith+
  define t where "t = (if 1 / 2 < r \<or> (r = 1 / 2 \<and> odd q) then q + 1 else q)"
  have "fmt_1f x = str_nat (t div 10) @ ''.'' @ [digit_char (t mod 10)]"
    using assms by (simp add: fmt_1f_def Let_def t_def r_def q_def a_def abs_if)
  moreover have "\<bar>of_nat t - 10 * x\<bar> \<le> 1 / 2"
    using r0 by (auto simp: t_def r_def a_def abs_if)
  ultimately show ?thesis by blast
qed

lemma hrs_examples:
  "human_readable_size 0 = ''0.0 B''"
  "human_readable_size 1536 = ''1.5 KB''"
  "human_readable_size 1048576 = ''1.0 MB''"
  by (simp_all add: human_readable_size_def fmt_1f_def str_nat.simps digit_char_def)

text \<open>
  Claim C8. \<open>human_readable_size\<close> maps 0 to \<open>0.0 B\<close>, 1536 to \<open>1.5 KB\<close> and 1048576 to
  \<open>1.0 MB\<close>. For a byte count \<open>n\<close> (below \<open>2 ^ 53\<close>, where the float the program holds is
  the exact quotient) it divides by 1024 once per unit passed: with \<open>k\<close> the position of
  the unit among B, KB, MB, GB, TB (\<open>n\<close> below \<open>1024 ^ (k + 1)\<close> and, past B, at least
  \<open>1024 ^ k\<close>) the result is \<open>n / 1024 ^ k\<close> with one decimal place, a space and the unit;
  from \<open>1024 ^ 5\<close> on the unit is PB. One decimal place means: the digits are those of a
  whole number of tenths at most half a tenth away from the value.
\<close>

theorem human_readable_size_units:
  "human_readable_size 0 = ''0.0 B''
   \<and> human_readable_size 1536 = ''1.5 KB''
   \<and> human_readable_size 1048576 = ''1.0 MB''
   \<and> (\<forall>n k. n < (2::nat) ^ 53 \<and> k < 5 \<and> n < 1024 ^ (k + 1) \<and> (k = 0 \<or> 1024 ^ k \<le> n)
         \<longrightarrow> human_readable_size (of_nat n)
               = fmt_1f (of_nat n / 1024 ^ k) @ '' '' @ unit_names ! k)
   \<and> (\<forall>n. n < (2::nat) ^ 53 \<and> 1024 ^ 5 \<le> n
         \<longrightarrow> human_readable_size (of_nat n)
               = fmt_1f (of_nat n / 1024 ^ 5) @ '' '' @ unit_names ! 5)
   \<and> (\<forall>x. 0 \<le> x
         \<longrightarrow> (\<exists>t. fmt_1f x = str_nat (t div 10) @ ''.'' @ [digit_char (t mod 10)]
                  \<and> \<bar>of_nat t - 10 * x\<bar> \<le> 1 / 2))"
proof (intro conjI allI impI)
  fix n k :: nat
  assume h: "n < 2 ^ 53 \<and> k < 5 \<and> n < 1024 ^ (k + 1) \<and> (k = 0 \<or> 1024 ^ k \<le> n)"
  have lt: "(of_nat n :: rat) < 1024 ^ (k + 1)"
  proof -
    have "(of_nat n :: rat) < of_nat (1024 ^ (k + 1))" using h by (simp only: of_nat_less_iff)
    then show ?thesis by simp
  qed
  have ge: "k = 0 \<or> (1024 ^ k :: rat) \<le> of_nat n"
  proof (cases "k = 0")
    case True then show ?thesis by simp
  next
    case False
    then have "(1024::nat) ^ k \<le> n" using h by simp
    then have "(of_nat (1024 ^ k) :: rat) \<le> of_nat n" by (simp only: of_nat_le_iff)
    then show ?thesis by simp
  qed
  from h lt ge show "human_readable_size (of_nat n)
      = fmt_1f (of_nat n / 1024 ^ k) @ '' '' @ unit_names ! k"
    by (intro hrs_unit) auto
next
  fix n :: nat
  assume h: "n < 2 ^ 53 \<and> 1024 ^ 5 \<le> n"
  then have "(of_nat (1024 ^ 5) :: rat) \<le> of_nat n" by (simp only: of_nat_le_iff)
  then have "(1024 ^ 5 :: rat) \<le> of_nat n" by simp
  then show "human_readable_size (of_nat n)
      = fmt_1f (of_nat n / 1024 ^ 5) @ '' '' @ unit_names ! 5"
    by (rule hrs_pb)
next
  fix x :: rat
  assume "0 \<le> x"
  then show "\<exists>t. fmt_1f x = str_nat (t div 10) @ ''.'' @ [digit_char (t mod 10)]
                  \<and> \<bar>of_nat t - 10 * x\<bar> \<le> 1 / 2"
    by (rule fmt_1f_round)
qed (simp_all add: hrs_examples)

theorem human_readable_size_units_witness:
  "(1536::nat) < 2 ^ 53 \<and> (1::nat) < 5 \<and> (1536::nat) < 1024 ^ (1 + 1) \<and> (1024::nat) ^ 1 \<le> 1536
   \<and> human_readable_size (of_nat 1536) = fmt_1f (of_nat 1536 / 1024 ^ 1) @ '' '' @ unit_names ! 1
   \<and> (3377699720527872::nat) < 2 ^ 53 \<and> (1024::nat) ^ 5 \<le> 3377699720527872
   \<and> human_readable_size (of_nat 3377699720527872) = ''3.0 PB''
   \<and> (0::rat) \<le> 3 / 4
   \<and> (\<exists>t. fmt_1f (3 / 4) = str_nat (t div 10) @ ''.'' @ [digit_char (t mod 10)]
          \<and> \<bar>of_nat t - 10 * (3 / 4 :: rat)\<bar> \<le> 1 / 2)"
proof -
  note u = human_readable_size_units
  have a: "human_readable_size (of_nat 1536) = fmt_1f (of_nat 1536 / 1024 ^ 1) @ '' '' @ unit_names ! 1"
    using u [THEN conjunct2, THEN conjunct2, THEN conjunct2, THEN conjunct1, rule_format, of 1536 1]
    by simp
  have b: "human_readable_size (of_nat 3377699720527872)
           = fmt_1f (of_nat 3377699720527872 / 1024 ^ 5) @ '' '' @ unit_names ! 5"
    using u [THEN conjunct2, THEN conjunct2, THEN conjunct2, THEN conjunct2, THEN conjunct1,
             rule_format, of 3377699720527872]
    by simp
  have b': "human_readable_size (of_nat 3377699720527872) = ''3.0 PB''"
    unfolding b by (simp add: fmt_1f_def str_nat.simps digit_char_def unit_names_def)
  have c: "\<exists>t. fmt_1f (3 / 4) = str_nat (t div 10) @ ''.'' @ [digit_char (t mod 10)]
          \<and> \<bar>of_nat t - 10 * (3 / 4 :: rat)\<bar> \<le> 1 / 2"
    using u [THEN conjunct2, THEN conjunct2, THEN conjunct2, THEN conjunct2, THEN conjunct2,
             rule_format, of "3 / 4"]
    by simp
  show ?thesis using a b' c by simp
qed

section \<open>Facts about paths and extensions\<close>

lemma rfind_ge: "- 1 \<le> rfind c s"
  by (induction s) (auto simp: Let_def)

lemma rfind_lt_length: "rfind c s < int (length s)"
  by (induction s) (auto simp: Let_def)

lemma rfind_neg_iff: "rfind c s < 0 \<longleftrightarrow> c \<notin> set s"
  using rfind_ge [of c] by (induction s) (auto simp: Let_def)

lemma rfind_notin: "c \<notin> set s \<Longrightarrow> rfind c s = - 1"
  using rfind_neg_iff [of c s] rfind_ge [of c s] by linarith

lemma rfind_append:
  "rfind c (a @ b) = (if c \<in> set b then int (length a) + rfind c b else rfind c a)"
proof (induction a)
  case Nil
  then show ?case by (simp add: rfind_notin)
next
  case (Cons x a)
  show ?case
  proof (cases "c \<in> set b")
    case True
    then have "0 \<le> rfind c b" using rfind_neg_iff [of c b] by linarith
    with True Cons show ?thesis by (simp add: Let_def)
  next
    case False
    with Cons show ?thesis by (simp add: Let_def)
  qed
qed

lemma rfind_last: "a \<noteq> [] \<Longrightarrow> last a = c \<Longrightarrow> rfind c a = int (length a) - 1"
proof -
  assume "a \<noteq> []" "last a = c"
  then have "a = butlast a @ [c]" by (metis append_butlast_last_id)
  then have "rfind c a = rfind c (butlast a @ [c])" by simp
  also have "\<dots> = int (length (butlast a))" by (simp only: rfind_append) simp
  finally show ?thesis using \<open>a \<noteq> []\<close> by (cases a rule: rev_cases) simp_all
qed

lemma rfind_nth: "0 \<le> rfind c s \<Longrightarrow> s ! nat (rfind c s) = c"
proof (induction s)
  case Nil then show ?case by simp
next
  case (Cons x s)
  show ?case
  proof (cases "0 \<le> rfind c s")
    case True
    then have "nat (rfind c s + 1) = Suc (nat (rfind c s))" by simp
    with True Cons show ?thesis by (simp add: Let_def)
  next
    case False
    with Cons.prems show ?thesis by (simp add: Let_def split: if_splits)
  qed
qed

lemma rfind_other_last:
  assumes "a \<noteq> []" "last a = d" "d \<noteq> c"
  shows "rfind c a < int (length a) - 1"
proof -
  from assms have a: "a = butlast a @ [d]" by (metis append_butlast_last_id)
  have "rfind c a = rfind c (butlast a @ [d])" using a by simp
  also have "\<dots> = rfind c (butlast a)" using assms(3) by (simp only: rfind_append) simp
  also have "\<dots> < int (length (butlast a))" by (rule rfind_lt_length)
  finally show ?thesis using assms(1) by (cases a rule: rev_cases) simp_all
qed

lemma has_non_dot_shift:
  "0 \<le> i \<Longrightarrow> has_non_dot (a @ b) (int (length a) + i) (int (length a) + d) = has_non_dot b i d"
proof (induction b i d rule: has_non_dot.induct)
  case (1 p i d)
  have dr: "drop (nat (int (length a) + i)) (a @ p) = drop (nat i) p"
    using 1(2) by (simp add: nat_add_distrib)
  show ?case
  proof (cases "i < d")
    case True
    show ?thesis
    proof (cases "take 1 (drop (nat i) p) \<noteq> ''.''")
      case True
      with \<open>i < d\<close> dr show ?thesis
        by (subst has_non_dot.simps, subst (2) has_non_dot.simps) simp
    next
      case False
      then have ih: "has_non_dot (a @ p) (int (length a) + (i + 1)) (int (length a) + d)
           = has_non_dot p (i + 1) d"
        using 1(1) [OF \<open>i < d\<close>] 1(2) by simp
      have e: "int (length a) + i + 1 = int (length a) + (i + 1)" by simp
      from False \<open>i < d\<close> dr ih show ?thesis
        by (subst has_non_dot.simps, subst (2) has_non_dot.simps) (simp add: e)
    qed
  next
    case False
    then show ?thesis
      by (subst has_non_dot.simps, subst (2) has_non_dot.simps) simp
  qed
qed

lemma splitext_prefix:
  assumes "CHR ''/'' \<notin> set item" "a = [] \<or> last a = CHR ''/''"
  shows "snd (splitext (a @ item)) = snd (splitext item)"
proof -
  have sep: "rfind CHR ''/'' (a @ item) = int (length a) - 1"
  proof (cases "a = []")
    case True
    then show ?thesis using assms(1) by (simp add: rfind_notin)
  next
    case False
    with assms(2) have "rfind CHR ''/'' a = int (length a) - 1"
      by (intro rfind_last) auto
    then show ?thesis using assms(1) by (simp add: rfind_append)
  qed
  have sep0: "rfind CHR ''/'' item = - 1" using assms(1) by (rule rfind_notin)
  show ?thesis
  proof (cases "CHR ''.'' \<in> set item")
    case True
    define r where "r = rfind CHR ''.'' item"
    have r0: "0 \<le> r" using True rfind_neg_iff [of "CHR ''.''" item] by (simp add: r_def)
    have dot: "rfind CHR ''.'' (a @ item) = int (length a) + r"
      using True by (simp add: rfind_append r_def)
    have hn: "has_non_dot (a @ item) (int (length a) - 1 + 1) (int (length a) + r)
          = has_non_dot item 0 r"
      using has_non_dot_shift [of 0 a item r] by simp
    have dr: "drop (nat (int (length a) + r)) (a @ item) = drop (nat r) item"
      using r0 by (simp add: nat_add_distrib)
    show ?thesis
      using r0 hn dr by (simp add: splitext_def sep sep0 dot r_def [symmetric] Let_def)
  next
    case False
    have d0: "rfind CHR ''.'' item = - 1" using False by (rule rfind_notin)
    have "rfind CHR ''.'' (a @ item) \<le> int (length a) - 1"
    proof (cases "a = []")
      case True then show ?thesis using False by (simp add: rfind_notin)
    next
      case False
      with assms(2) have "rfind CHR ''.'' a < int (length a) - 1"
        by (intro rfind_other_last [of a "CHR ''/''"]) auto
      then show ?thesis using \<open>CHR ''.'' \<notin> set item\<close> by (simp add: rfind_append)
    qed
    then show ?thesis by (simp add: splitext_def sep sep0 d0 Let_def)
  qed
qed

lemma path_join_cases:
  assumes "CHR ''/'' \<notin> set item"
  shows "\<exists>a. path_join fp item = a @ item \<and> (a = [] \<or> last a = CHR ''/'')"
proof -
  have n: "take 1 item \<noteq> ''/''" using assms by (cases item) auto
  show ?thesis
  proof (cases "fp = [] \<or> last fp = CHR ''/''")
    case True
    with n have "path_join fp item = fp @ item" by (simp add: path_join_def)
    with True show ?thesis by blast
  next
    case False
    with n have "path_join fp item = (fp @ ''/'') @ item" by (simp add: path_join_def)
    moreover have "last (fp @ ''/'') = CHR ''/''" by simp
    ultimately show ?thesis by blast
  qed
qed

lemma splitext_join:
  "CHR ''/'' \<notin> set item \<Longrightarrow> snd (splitext (path_join fp item)) = snd (splitext item)"
  using path_join_cases [of item fp] splitext_prefix by metis

lemma splitext_ext_dot:
  "snd (splitext p) = [] \<or> (\<exists>rest. snd (splitext p) = CHR ''.'' # rest)"
proof (cases "rfind CHR ''/'' p < rfind CHR ''.'' p \<and> has_non_dot p (rfind CHR ''/'' p + 1) (rfind CHR ''.'' p)")
  case True
  define r where "r = rfind CHR ''.'' p"
  have r0: "0 \<le> r" using True rfind_ge [of "CHR ''/''" p] by (simp add: r_def)
  have lt: "nat r < length p" using rfind_lt_length [of "CHR ''.''" p] r0 by (simp add: r_def)
  have "p ! nat r = CHR ''.''" using r0 rfind_nth [of "CHR ''.''" p] by (simp add: r_def)
  then have "drop (nat r) p = CHR ''.'' # drop (Suc (nat r)) p"
    using lt by (metis Cons_nth_drop_Suc)
  with True show ?thesis by (simp add: splitext_def Let_def r_def)
next
  case False
  then show ?thesis by (auto simp: splitext_def Let_def)
qed

lemma splitext_dotless:
  assumes "CHR ''.'' \<notin> set item"
  shows "snd (splitext (path_join fp item)) = []"
proof (cases "take 1 item = ''/''")
  case True
  then have "path_join fp item = item" by (simp add: path_join_def)
  moreover have "rfind CHR ''.'' item = - 1" using assms by (rule rfind_notin)
  ultimately show ?thesis using rfind_ge [of "CHR ''/''" item] by (simp add: splitext_def Let_def)
next
  case False
  have "\<exists>a. path_join fp item = a @ item \<and> (a = [] \<or> last a = CHR ''/'')"
  proof (cases "fp = [] \<or> last fp = CHR ''/''")
    case True
    with False have "path_join fp item = fp @ item" by (simp add: path_join_def)
    with True show ?thesis by blast
  next
    case f: False
    with False have "path_join fp item = (fp @ ''/'') @ item" by (simp add: path_join_def)
    moreover have "last (fp @ ''/'') = CHR ''/''" by simp
    ultimately show ?thesis by blast
  qed
  then obtain a where a: "path_join fp item = a @ item" "a = [] \<or> last a = CHR ''/''"
    by blast
  have le: "rfind CHR ''.'' (a @ item) \<le> rfind CHR ''/'' (a @ item)"
  proof (cases "a = []")
    case True
    then show ?thesis using assms rfind_ge [of "CHR ''/''" item] by (simp add: rfind_notin)
  next
    case False
    with a(2) have l: "last a = CHR ''/''" by simp
    have 1: "rfind CHR ''.'' (a @ item) = rfind CHR ''.'' a" using assms by (simp add: rfind_append)
    have 2: "rfind CHR ''.'' a < int (length a) - 1"
      using False l by (intro rfind_other_last [of a "CHR ''/''"]) auto
    have 3: "int (length a) - 1 \<le> rfind CHR ''/'' (a @ item)"
      using rfind_last [OF False l] rfind_ge [of "CHR ''/''" item]
      by (auto simp: rfind_append)
    from 1 2 3 show ?thesis by linarith
  qed
  then show ?thesis using a(1) by (simp add: splitext_def Let_def)
qed

lemma lower_dot: "lower (CHR ''.'' # rest) = CHR ''.'' # lower rest"
  by (simp add: lower_def lower_char_def)



section \<open>Facts about the full walk\<close>

lemma file_step_ok:
  "item \<notin> exclusions ex \<Longrightarrow> lines_ok ex acc
     \<Longrightarrow> lines_ok ex (file_step ex da fp il ec item f acc)"
  by (auto simp: file_step_def lines_ok_def Let_def split: prod.splits sum.splits)

lemma gfs_ok:
  "lines_ok ex (get_folder_structure_and_content ex da fp il ec node)"
  "lines_ok ex acc \<Longrightarrow> lines_ok ex (gfs_items ex da fp il ec items acc)"
proof (induction ex da fp il ec node and ex da fp il ec items acc
       rule: get_folder_structure_and_content_gfs_items.induct)
  case (1 ex da folder_path indent_level extract_content entries)
  then show ?case by (simp add: lines_ok_def)
next
  case (2 ex da folder_path indent_level extract_content entries)
  then show ?case by (simp add: lines_ok_def)
next
  case (3 ex da folder_path indent_level extract_content msg)
  then show ?case by (simp add: lines_ok_def)
next
  case (4 ex da folder_path indent_level extract_content f)
  then show ?case by (simp add: lines_ok_def)
next
  case (5 ex da folder_path indent_level extract_content acc)
  then show ?case by simp
next
  case (6 ex da folder_path indent_level extract_content item node items acc)
  show ?case
  proof (cases "item \<in> exclusions ex")
    case True
    with "6.IH"(1) "6.prems" show ?thesis by simp
  next
    case False
    show ?thesis
    proof (cases node)
      case (File f)
      with False "6.IH"(2) [OF False File] "6.prems" show ?thesis
        by (simp add: file_step_ok)
    next
      case (Dir es)
      obtain so co st where acc: "acc = (so, co, st)" by (cases acc) auto
      obtain ss sc sst where sub: "get_folder_structure_and_content ex da
          (path_join folder_path item) (indent_level + 1) extract_content node = (ss, sc, sst)"
        by (cases "get_folder_structure_and_content ex da
          (path_join folder_path item) (indent_level + 1) extract_content node") auto
      have subok: "lines_ok ex (ss, sc, sst)"
        using "6.IH"(3) [OF False Dir] acc sub by (metis prod.collapse)
      have "lines_ok ex (so @ [DirLine indent_level folder_path item] @ ss, co @ sc, add_stats st sst)"
        using subok "6.prems" False by (auto simp: lines_ok_def acc)
      then show ?thesis
        using "6.IH"(4) [OF False Dir acc [symmetric] refl sub [symmetric] refl] False Dir acc sub
        by simp
    next
      case (DirError m)
      obtain so co st where acc: "acc = (so, co, st)" by (cases acc) auto
      obtain ss sc sst where sub: "get_folder_structure_and_content ex da
          (path_join folder_path item) (indent_level + 1) extract_content node = (ss, sc, sst)"
        by (cases "get_folder_structure_and_content ex da
          (path_join folder_path item) (indent_level + 1) extract_content node") auto
      have subok: "lines_ok ex (ss, sc, sst)"
        using "6.IH"(5) [OF False DirError] acc sub by (metis prod.collapse)
      have "lines_ok ex (so @ [DirLine indent_level folder_path item] @ ss, co @ sc, add_stats st sst)"
        using subok "6.prems" False by (auto simp: lines_ok_def acc)
      then show ?thesis
        using "6.IH"(6) [OF False DirError acc [symmetric] refl sub [symmetric] refl] False DirError acc sub
        by simp
    next
      case (Link es)
      obtain so co st where acc: "acc = (so, co, st)" by (cases acc) auto
      obtain ss sc sst where sub: "get_folder_structure_and_content ex da
          (path_join folder_path item) (indent_level + 1) extract_content node = (ss, sc, sst)"
        by (cases "get_folder_structure_and_content ex da
          (path_join folder_path item) (indent_level + 1) extract_content node") auto
      have subok: "lines_ok ex (ss, sc, sst)"
        using "6.IH"(7) [OF False Link] acc sub by (metis prod.collapse)
      have "lines_ok ex (so @ [DirLine indent_level folder_path item] @ ss, co @ sc, add_stats st sst)"
        using subok "6.prems" False by (auto simp: lines_ok_def acc)
      then show ?thesis
        using "6.IH"(8) [OF False Link acc [symmetric] refl sub [symmetric] refl] False Link acc sub
        by simp
    qed
  qed
qed

lemma prune_entries_keys: "fst ` set (prune_entries X es) \<subseteq> fst ` set es"
  by (induction es) (force split: if_splits)+

lemma prune_entries_insort:
  "sorted (map fst es) \<Longrightarrow>
   prune_entries X (insort_key fst (item, node) es) =
     (if item \<in> X then prune_entries X es
      else insort_key fst (item, prune X node) (prune_entries X es))"
proof (induction es)
  case Nil
  then show ?case by simp
next
  case (Cons e es)
  obtain a t where e: "e = (a, t)" by (cases e) auto
  show ?case
  proof (cases "item \<le> a")
    case True
    have "\<forall>x \<in> set (prune_entries X (e # es)). item \<le> fst x"
    proof
      fix x assume "x \<in> set (prune_entries X (e # es))"
      then have "fst x \<in> fst ` set (e # es)" using prune_entries_keys by blast
      then have "a \<le> fst x" using Cons.prems e by auto
      with True show "item \<le> fst x" by simp
    qed
    then have "insort_key fst (item, prune X node) (prune_entries X (e # es))
        = (item, prune X node) # prune_entries X (e # es)"
      by (intro insort_is_Cons) simp
    with True e show ?thesis by simp
  next
    case False
    with Cons e show ?thesis by auto
  qed
qed

lemma sort_prune_entries:
  "sort_key fst (prune_entries X es) = prune_entries X (sort_key fst es)"
  by (induction es) (auto simp: prune_entries_insort)

lemma gfs_prune:
  "get_folder_structure_and_content ex da fp il ec (prune (exclusions ex) node)
     = get_folder_structure_and_content ex da fp il ec node"
  "gfs_items ex da fp il ec (prune_entries (exclusions ex) items) acc
     = gfs_items ex da fp il ec items acc"
proof (induction ex da fp il ec node and ex da fp il ec items acc
       rule: get_folder_structure_and_content_gfs_items.induct)
  case (1 ex da folder_path indent_level extract_content entries)
  then show ?case by (simp add: sort_prune_entries)
next
  case (2 ex da folder_path indent_level extract_content entries)
  then show ?case by (simp add: sort_prune_entries)
next
  case (3 ex da folder_path indent_level extract_content msg)
  then show ?case by simp
next
  case (4 ex da folder_path indent_level extract_content f)
  then show ?case by simp
next
  case (5 ex da folder_path indent_level extract_content acc)
  then show ?case by simp
next
  case (6 ex da folder_path indent_level extract_content item node items acc)
  show ?case
  proof (cases "item \<in> exclusions ex")
    case True
    with "6.IH"(1) show ?thesis by simp
  next
    case False
    show ?thesis
    proof (cases node)
      case (File f)
      with False "6.IH"(2) [OF False File] show ?thesis by simp
    next
      case (Dir es)
      obtain so co st where acc: "acc = (so, co, st)" by (cases acc) auto
      obtain ss sc sst where sub: "get_folder_structure_and_content ex da
          (path_join folder_path item) (indent_level + 1) extract_content node = (ss, sc, sst)"
        by (cases "get_folder_structure_and_content ex da
          (path_join folder_path item) (indent_level + 1) extract_content node") auto
      have p: "get_folder_structure_and_content ex da (path_join folder_path item)
          (indent_level + 1) extract_content (prune (exclusions ex) node) = (ss, sc, sst)"
        using "6.IH"(3) [OF False Dir acc [symmetric] refl] sub by simp
      have q: "gfs_items ex da folder_path indent_level extract_content
            (prune_entries (exclusions ex) items)
            (so @ [DirLine indent_level folder_path item] @ ss, co @ sc, add_stats st sst)
          = gfs_items ex da folder_path indent_level extract_content items
            (so @ [DirLine indent_level folder_path item] @ ss, co @ sc, add_stats st sst)"
        using "6.IH"(4) [OF False Dir acc [symmetric] refl sub [symmetric] refl] by simp
      from p have p': "get_folder_structure_and_content ex da (path_join folder_path item)
          (Suc indent_level) extract_content (Dir (prune_entries (exclusions ex) es)) = (ss, sc, sst)"
        using Dir by simp
      show ?thesis using False Dir acc sub p' q by simp
    next
      case (DirError m)
      obtain so co st where acc: "acc = (so, co, st)" by (cases acc) auto
      obtain ss sc sst where sub: "get_folder_structure_and_content ex da
          (path_join folder_path item) (indent_level + 1) extract_content node = (ss, sc, sst)"
        by (cases "get_folder_structure_and_content ex da
          (path_join folder_path item) (indent_level + 1) extract_content node") auto
      have p: "get_folder_structure_and_content ex da (path_join folder_path item)
          (indent_level + 1) extract_content (prune (exclusions ex) node) = (ss, sc, sst)"
        using "6.IH"(5) [OF False DirError acc [symmetric] refl] sub by simp
      have q: "gfs_items ex da folder_path indent_level extract_content
            (prune_entries (exclusions ex) items)
            (so @ [DirLine indent_level folder_path item] @ ss, co @ sc, add_stats st sst)
          = gfs_items ex da folder_path indent_level extract_content items
            (so @ [DirLine indent_level folder_path item] @ ss, co @ sc, add_stats st sst)"
        using "6.IH"(6) [OF False DirError acc [symmetric] refl sub [symmetric] refl] by simp
      from p have p': "get_folder_structure_and_content ex da (path_join folder_path item)
          (Suc indent_level) extract_content (DirError m) = (ss, sc, sst)"
        using DirError by simp
      show ?thesis using False DirError acc sub p' q by simp
    next
      case (Link es)
      obtain so co st where acc: "acc = (so, co, st)" by (cases acc) auto
      obtain ss sc sst where sub: "get_folder_structure_and_content ex da
          (path_join folder_path item) (indent_level + 1) extract_content node = (ss, sc, sst)"
        by (cases "get_folder_structure_and_content ex da
          (path_join folder_path item) (indent_level + 1) extract_content node") auto
      have p: "get_folder_structure_and_content ex da (path_join folder_path item)
          (indent_level + 1) extract_content (prune (exclusions ex) node) = (ss, sc, sst)"
        using "6.IH"(7) [OF False Link acc [symmetric] refl] sub by simp
      have q: "gfs_items ex da folder_path indent_level extract_content
            (prune_entries (exclusions ex) items)
            (so @ [DirLine indent_level folder_path item] @ ss, co @ sc, add_stats st sst)
          = gfs_items ex da folder_path indent_level extract_content items
            (so @ [DirLine indent_level folder_path item] @ ss, co @ sc, add_stats st sst)"
        using "6.IH"(8) [OF False Link acc [symmetric] refl sub [symmetric] refl] by simp
      from p have p': "get_folder_structure_and_content ex da (path_join folder_path item)
          (Suc indent_level) extract_content (Link (prune_entries (exclusions ex) es)) = (ss, sc, sst)"
        using Link by simp
      show ?thesis using False Link acc sub p' q by simp
    qed
  qed
qed

lemma gfs_struct_ok:
  assumes "l \<in> set (fst (get_folder_structure_and_content ex da fp il ec node))"
  shows "sl_ok ex l"
  using gfs_ok(1) [of ex da fp il ec node] assms by (simp add: lines_ok_def)

lemma gfs_content_ok:
  assumes "l \<in> set (fst (snd (get_folder_structure_and_content ex da fp il ec node)))"
  shows "cl_ok ex l"
  using gfs_ok(1) [of ex da fp il ec node] assms by (simp add: lines_ok_def)


section \<open>Exclusions in full extraction\<close>

lemmas str_eval = lower_def lower_char_def char_of_def bit_Suc_0_iff strip_def is_space_def
  path_join_def splitext_def Let_def has_non_dot.simps less_eq_char_def less_char_def

lemmas sample_defs = sample_tree_def sample_file_def sample_extractor_def
  DEFAULT_EXCLUSIONS_def supported_text_exts_def

lemma sample_walk:
  "get_folder_structure_and_content
     (sample_extractor\<lparr>exclusions := DEFAULT_EXCLUSIONS \<union> exclusions sample_extractor\<rparr>)
     True ''/p'' 0 True sample_tree
   = ([FileLine 0 ''/p'' ''a.py'', FileLine 0 ''/p'' ''big.txt'',
       DirLine 0 ''/p'' ''src'', FileLine 1 ''/p/src'' ''main.py''],
      [FileHeader 0 ''/p'' ''a.py'', Extracted (''Content:'' @ [CHR 0x0A] @ ''hello world''),
       FileHeader 0 ''/p'' ''big.txt'', TooLarge 0,
       FileHeader 1 ''/p/src'' ''main.py'',
       Extracted (''    Content:'' @ [CHR 0x0A] @ ''hello world'')],
      \<lparr>words = 4, lines = 0, characters = 22, tokens = 4, size_b = 153622\<rparr>)"
  by (simp add: sample_defs str_eval file_step_def extract_file_content_def text_stats_def
      add_file_stats_def add_stats_def zero_stats_def indent_def)

lemma build_context_prune:
  "build_context ex da fp ec (prune (DEFAULT_EXCLUSIONS \<union> exclusions ex) tree)
     = build_context ex da fp ec tree"
proof -
  define ex' where "ex' = ex\<lparr>exclusions := DEFAULT_EXCLUSIONS \<union> exclusions ex\<rparr>"
  have "get_folder_structure_and_content ex' da fp 0 ec (prune (exclusions ex') tree)
      = get_folder_structure_and_content ex' da fp 0 ec tree"
    by (rule gfs_prune(1))
  then show ?thesis by (simp add: build_context_def ex'_def)
qed

text \<open>
  Claim C1. Full extraction never lists and never descends into an excluded entry. With
  \<open>X\<close> the effective exclusion set (the baseline unioned with the user's additions, as
  \<open>build_context\<close> assigns it) and any tree: no directory line, file line or file-block
  header of the walk is about an entry whose name is in \<open>X\<close>; and the walk, hence the
  report \<open>build_context\<close> returns, is the same on the tree with every entry named in \<open>X\<close>
  removed at every level, so nothing below such an entry is ever read.
\<close>

theorem full_extraction_skips_exclusions:
  fixes ex :: extractor and da :: bool and folder_path :: string and extract_content :: bool
    and tree :: fsnode
  defines "X \<equiv> DEFAULT_EXCLUSIONS \<union> exclusions ex"
  defines "out \<equiv> get_folder_structure_and_content (ex\<lparr>exclusions := X\<rparr>) da folder_path 0
                    extract_content tree"
  shows "(\<forall>il fp item. DirLine il fp item \<in> set (fst out) \<longrightarrow> item \<notin> X)
       \<and> (\<forall>il fp item. FileLine il fp item \<in> set (fst out) \<longrightarrow> item \<notin> X)
       \<and> (\<forall>il fp item. FileHeader il fp item \<in> set (fst (snd out)) \<longrightarrow> item \<notin> X)
       \<and> get_folder_structure_and_content (ex\<lparr>exclusions := X\<rparr>) da folder_path 0
            extract_content (prune X tree) = out
       \<and> build_context ex da folder_path extract_content (prune X tree)
            = build_context ex da folder_path extract_content tree"
proof (intro conjI allI impI)
  fix il fp item
  assume "DirLine il fp item \<in> set (fst out)"
  then have "sl_ok (ex\<lparr>exclusions := X\<rparr>) (DirLine il fp item)"
    unfolding out_def by (rule gfs_struct_ok)
  then show "item \<notin> X" by simp
next
  fix il fp item
  assume "FileLine il fp item \<in> set (fst out)"
  then have "sl_ok (ex\<lparr>exclusions := X\<rparr>) (FileLine il fp item)"
    unfolding out_def by (rule gfs_struct_ok)
  then show "item \<notin> X" by simp
next
  fix il fp item
  assume "FileHeader il fp item \<in> set (fst (snd out))"
  then have "cl_ok (ex\<lparr>exclusions := X\<rparr>) (FileHeader il fp item)"
    unfolding out_def by (rule gfs_content_ok)
  then show "item \<notin> X" by simp
next
  show "get_folder_structure_and_content (ex\<lparr>exclusions := X\<rparr>) da folder_path 0
            extract_content (prune X tree) = out"
    unfolding out_def using gfs_prune(1) [of "ex\<lparr>exclusions := X\<rparr>"] by simp
next
  show "build_context ex da folder_path extract_content (prune X tree)
            = build_context ex da folder_path extract_content tree"
    unfolding X_def by (rule build_context_prune)
qed

theorem full_extraction_skips_exclusions_witness:
  "FileLine 0 ''/p'' ''a.py'' \<in> set (fst (get_folder_structure_and_content
       (sample_extractor\<lparr>exclusions := DEFAULT_EXCLUSIONS \<union> exclusions sample_extractor\<rparr>)
       True ''/p'' 0 True sample_tree))
   \<and> ''a.py'' \<notin> DEFAULT_EXCLUSIONS \<union> exclusions sample_extractor
   \<and> DirLine 0 ''/p'' ''src'' \<in> set (fst (get_folder_structure_and_content
       (sample_extractor\<lparr>exclusions := DEFAULT_EXCLUSIONS \<union> exclusions sample_extractor\<rparr>)
       True ''/p'' 0 True sample_tree))
   \<and> ''src'' \<notin> DEFAULT_EXCLUSIONS \<union> exclusions sample_extractor
   \<and> FileHeader 1 ''/p/src'' ''main.py'' \<in> set (fst (snd (get_folder_structure_and_content
       (sample_extractor\<lparr>exclusions := DEFAULT_EXCLUSIONS \<union> exclusions sample_extractor\<rparr>)
       True ''/p'' 0 True sample_tree)))
   \<and> ''main.py'' \<notin> DEFAULT_EXCLUSIONS \<union> exclusions sample_extractor
   \<and> ''.git'' \<in> DEFAULT_EXCLUSIONS \<union> exclusions sample_extractor
   \<and> ''secret.txt'' \<in> DEFAULT_EXCLUSIONS \<union> exclusions sample_extractor
   \<and> build_context sample_extractor True ''/p'' True
        (prune (DEFAULT_EXCLUSIONS \<union> exclusions sample_extractor) sample_tree)
      = build_context sample_extractor True ''/p'' True sample_tree"
proof -
  note t = full_extraction_skips_exclusions [of sample_extractor True "''/p''" True sample_tree]
  have a: "FileLine 0 ''/p'' ''a.py'' \<in> set (fst (get_folder_structure_and_content
       (sample_extractor\<lparr>exclusions := DEFAULT_EXCLUSIONS \<union> exclusions sample_extractor\<rparr>)
       True ''/p'' 0 True sample_tree))"
    and b: "DirLine 0 ''/p'' ''src'' \<in> set (fst (get_folder_structure_and_content
       (sample_extractor\<lparr>exclusions := DEFAULT_EXCLUSIONS \<union> exclusions sample_extractor\<rparr>)
       True ''/p'' 0 True sample_tree))"
    and c: "FileHeader 1 ''/p/src'' ''main.py'' \<in> set (fst (snd (get_folder_structure_and_content
       (sample_extractor\<lparr>exclusions := DEFAULT_EXCLUSIONS \<union> exclusions sample_extractor\<rparr>)
       True ''/p'' 0 True sample_tree)))"
    by (simp_all only: sample_walk) simp_all
  have d: "''.git'' \<in> DEFAULT_EXCLUSIONS \<union> exclusions sample_extractor"
    and e: "''secret.txt'' \<in> DEFAULT_EXCLUSIONS \<union> exclusions sample_extractor"
    by (simp_all add: DEFAULT_EXCLUSIONS_def sample_extractor_def)
  from t a have a': "''a.py'' \<notin> DEFAULT_EXCLUSIONS \<union> exclusions sample_extractor" by blast
  from t b have b': "''src'' \<notin> DEFAULT_EXCLUSIONS \<union> exclusions sample_extractor" by blast
  from t c have c': "''main.py'' \<notin> DEFAULT_EXCLUSIONS \<union> exclusions sample_extractor" by blast
  from t have f: "build_context sample_extractor True ''/p'' True
        (prune (DEFAULT_EXCLUSIONS \<union> exclusions sample_extractor) sample_tree)
      = build_context sample_extractor True ''/p'' True sample_tree" by blast
  from a a' b b' c c' d e f show ?thesis by (intro conjI)
qed

section \<open>Extensions in full extraction\<close>

lemma set_extensions_loop_nonempty:
  "[] \<notin> acc \<Longrightarrow> [] \<notin> set_extensions_loop xs acc"
  by (induction xs arbitrary: acc) (auto simp: Let_def)

lemma lower_Nil_iff: "lower s = [] \<longleftrightarrow> s = []"
  by (simp add: lower_def)

lemma lower_ext_dot:
  "lower (snd (splitext p)) = [] \<or> (\<exists>rest. lower (snd (splitext p)) = CHR ''.'' # rest)"
  using splitext_ext_dot [of p] by (auto simp: lower_dot) (simp add: lower_def)

lemma splitext_last_dot:
  assumes "CHR ''/'' \<notin> set item"
  shows "snd (splitext (path_join fp item)) = []
       \<or> (0 \<le> rfind CHR ''.'' item
          \<and> snd (splitext (path_join fp item)) = drop (nat (rfind CHR ''.'' item)) item)"
proof -
  have "snd (splitext item) = []
       \<or> (0 \<le> rfind CHR ''.'' item \<and> snd (splitext item) = drop (nat (rfind CHR ''.'' item)) item)"
    using rfind_ge [of "CHR ''/''" item] by (auto simp: splitext_def Let_def)
  then show ?thesis using splitext_join [OF assms] by simp
qed

text \<open>
  Claim C10. The extension full extraction tests is empty or begins with a dot: for an
  entry name without a path separator it is empty or the part of the name from its last
  dot on. So the lower-cased extension never equals one of the dotless entries of the
  default allowlist (\<open>Makefile\<close>, \<open>Dockerfile\<close>, \<open>dockerfile\<close>, \<open>Vagrantfile\<close>,
  \<open>Procfile\<close>, and \<open>CMakeLists.txt\<close>, which does not begin with its dot). The
  empty string is in no allowlist the program builds (the default one, or any that
  \<open>set_extensions\<close> assigns), and with such an allowlist no tree makes full extraction
  list, or add a content block for, a file whose name has no dot.
\<close>

theorem dotless_names_never_match:
  "(\<forall>p. lower (snd (splitext p)) = [] \<or> (\<exists>rest. lower (snd (splitext p)) = CHR ''.'' # rest))
   \<and> (\<forall>fp item. CHR ''/'' \<notin> set item \<longrightarrow>
         snd (splitext (path_join fp item)) = []
         \<or> (0 \<le> rfind CHR ''.'' item
            \<and> snd (splitext (path_join fp item)) = drop (nat (rfind CHR ''.'' item)) item))
   \<and> (\<forall>p. lower (snd (splitext p))
           \<notin> {''Makefile'', ''Dockerfile'', ''dockerfile'', ''Vagrantfile'', ''Procfile'',
              ''CMakeLists.txt''})
   \<and> {''Makefile'', ''Dockerfile'', ''dockerfile'', ''Vagrantfile'', ''Procfile'',
       ''CMakeLists.txt''} \<subseteq> default_extensions
   \<and> [] \<notin> default_extensions
   \<and> (\<forall>(ex::extractor) xs. [] \<notin> extensions (set_extensions ex xs))
   \<and> (\<forall>(ex::extractor) da folder_path extract_content tree il fp item.
         [] \<notin> extensions ex \<and> CHR ''.'' \<notin> set item \<longrightarrow>
           FileLine il fp item
             \<notin> set (fst (get_folder_structure_and_content ex da folder_path 0 extract_content tree))
           \<and> FileHeader il fp item
             \<notin> set (fst (snd (get_folder_structure_and_content ex da folder_path 0
                                extract_content tree))))"
proof (intro conjI allI impI)
  fix p show "lower (snd (splitext p)) = [] \<or> (\<exists>rest. lower (snd (splitext p)) = CHR ''.'' # rest)"
    by (rule lower_ext_dot)
next
  fix fp item assume "CHR ''/'' \<notin> set item"
  then show "snd (splitext (path_join fp item)) = []
         \<or> (0 \<le> rfind CHR ''.'' item
            \<and> snd (splitext (path_join fp item)) = drop (nat (rfind CHR ''.'' item)) item)"
    by (rule splitext_last_dot)
next
  fix p show "lower (snd (splitext p))
           \<notin> {''Makefile'', ''Dockerfile'', ''dockerfile'', ''Vagrantfile'', ''Procfile'',
              ''CMakeLists.txt''}"
    using lower_ext_dot [of p] by auto
next
  show "{''Makefile'', ''Dockerfile'', ''dockerfile'', ''Vagrantfile'', ''Procfile'',
       ''CMakeLists.txt''} \<subseteq> default_extensions"
    by (simp add: default_extensions_def)
next
  show "[] \<notin> default_extensions" by (simp add: default_extensions_def)
next
  fix ex :: extractor and xs show "[] \<notin> extensions (set_extensions ex xs)"
    by (simp add: set_extensions_def set_extensions_loop_nonempty)
next
  fix ex :: extractor and da folder_path extract_content tree il fp item
  assume h: "[] \<notin> extensions ex \<and> CHR ''.'' \<notin> set item"
  then have e: "lower (snd (splitext (path_join fp item))) \<notin> extensions ex"
    by (simp add: splitext_dotless lower_def)
  show "FileLine il fp item
      \<notin> set (fst (get_folder_structure_and_content ex da folder_path 0 extract_content tree))"
  proof
    assume "FileLine il fp item
      \<in> set (fst (get_folder_structure_and_content ex da folder_path 0 extract_content tree))"
    then have "sl_ok ex (FileLine il fp item)" by (rule gfs_struct_ok)
    with e show False by simp
  qed
  show "FileHeader il fp item
      \<notin> set (fst (snd (get_folder_structure_and_content ex da folder_path 0 extract_content tree)))"
  proof
    assume "FileHeader il fp item
      \<in> set (fst (snd (get_folder_structure_and_content ex da folder_path 0 extract_content tree)))"
    then have "cl_ok ex (FileHeader il fp item)" by (rule gfs_content_ok)
    with e show False by simp
  qed
qed

theorem dotless_names_never_match_witness:
  "CHR ''/'' \<notin> set ''a.tar.GZ''
   \<and> (0::int) \<le> rfind CHR ''.'' ''a.tar.GZ''
   \<and> snd (splitext (path_join ''/p'' ''a.tar.GZ'')) = ''.GZ''
   \<and> [] \<notin> extensions init_extractor \<and> CHR ''.'' \<notin> set ''Makefile''
   \<and> FileLine 1 ''/p/src'' ''Makefile''
       \<notin> set (fst (get_folder_structure_and_content init_extractor True ''/p'' 0 True sample_tree))
   \<and> FileHeader 1 ''/p/src'' ''Makefile''
       \<notin> set (fst (snd (get_folder_structure_and_content init_extractor True ''/p'' 0 True
                          sample_tree)))"
proof -
  note t = dotless_names_never_match
  note t2 = t [THEN conjunct2, THEN conjunct1, rule_format]
  note t7 = t [THEN conjunct2, THEN conjunct2, THEN conjunct2, THEN conjunct2, THEN conjunct2,
               THEN conjunct2, rule_format]
  have a: "CHR ''/'' \<notin> set ''a.tar.GZ''" by simp
  have s: "snd (splitext (path_join ''/p'' ''a.tar.GZ'')) \<noteq> []" by (simp add: str_eval)
  have r: "rfind CHR ''.'' ''a.tar.GZ'' = 5" by simp
  from s t2 [where item = "''a.tar.GZ''" and fp = "''/p''", OF a]
  have b: "0 \<le> rfind CHR ''.'' ''a.tar.GZ''"
    and c: "snd (splitext (path_join ''/p'' ''a.tar.GZ'')) = ''.GZ''"
    by (simp_all add: r)
  have d: "[] \<notin> extensions init_extractor"
    by (simp add: init_extractor_def default_extensions_def)
  have e: "CHR ''.'' \<notin> set ''Makefile''" by simp
  note f = t7 [where ex = init_extractor and da = True and folder_path = "''/p''"
      and extract_content = True and tree = sample_tree and il = 1 and fp = "''/p/src''"
      and item = "''Makefile''", OF conjI [OF d e]]
  from a b c d e f show ?thesis by (intro conjI) (rule conjunct1, assumption | rule conjunct2, assumption | assumption)+
qed

section \<open>The selector reply and the fallback\<close>


lemma run_mini_filter_fields:
  "gpt_worker (run_mini_filter s a)
     = Some \<lparr>messages = [(''user'', brain_prompt (loaded_context s) (current_user_prompt s) a)],
             model_name = ''gpt-5-mini'', slot = OnFilterResponse\<rparr>"
  "started (run_mini_filter s a)
     = started s @ [\<lparr>messages = [(''user'', brain_prompt (loaded_context s) (current_user_prompt s) a)],
                     model_name = ''gpt-5-mini'', slot = OnFilterResponse\<rparr>]"
  "current_query_attempt (run_mini_filter s a) = current_query_attempt s"
  by (simp_all add: run_mini_filter_def Let_def)

lemma display_fields [simp]:
  "gpt_worker (display_agent_message s a b c) = gpt_worker s"
  "started (display_agent_message s a b c) = started s"
  "current_query_attempt (display_agent_message s a b c) = current_query_attempt s"
  "extractor (display_agent_message s a b c) = extractor s"
  "loaded_context (display_agent_message s a b c) = loaded_context s"
  "chat_history (display_agent_message s a b c) = chat_history s"
  "current_user_prompt (display_agent_message s a b c) = current_user_prompt s"
  "ask_enabled (display_agent_message s a b c) = ask_enabled s"
  "response_log (display_agent_message s a b c) = response_log s @ [AgentMessage a b c]"
  "loaded_path (display_agent_message s a b c) = loaded_path s"
  "mode_show_prompt (display_agent_message s a b c) = mode_show_prompt s"
  by (simp_all add: display_agent_message_def)










section \<open>Large files in full extraction\<close>

lemma add_stats_assoc: "add_stats (add_stats a b) c = add_stats a (add_stats b c)"
  by (simp add: add_stats_def)

lemma add_stats_zero [simp]: "add_stats a zero_stats = a" "add_stats zero_stats a = a"
  by (simp_all add: add_stats_def zero_stats_def)

lemma total_stats_append:
  "total_stats (xs @ ys) = add_stats (total_stats xs) (total_stats ys)"
  by (induction xs) (simp_all add: add_stats_assoc)

lemma file_step_listed:
  assumes "lower (snd (splitext (path_join fp item))) \<in> extensions ex"
  shows "file_step ex da fp il True item f (so, co, st)
       = (so @ [FileLine il fp item], co @ content_block da (il, fp, item, f),
          add_stats st (contribution da (il, fp, item, f)))"
proof (cases "getsize f")
  case (Inl e)
  with assms show ?thesis
    by (simp add: file_step_def content_block_def contribution_def Let_def)
next
  case (Inr n)
  obtain c fs where x: "extract_file_content da (path_join fp item) f il = (c, fs)"
    by (cases "extract_file_content da (path_join fp item) f il") auto
  have big: "st\<lparr>size_b := size_b st + n\<rparr> = add_stats st (zero_stats\<lparr>size_b := n\<rparr>)"
    by (cases st) (simp add: add_stats_def zero_stats_def)
  have small: "add_file_stats (add_stats st (zero_stats\<lparr>size_b := n\<rparr>)) fs
      = add_stats st (add_file_stats (zero_stats\<lparr>size_b := n\<rparr>) fs)"
    by (cases st) (simp add: add_stats_def zero_stats_def add_file_stats_def)
  from assms Inr x show ?thesis
    by (simp add: file_step_def content_block_def contribution_def Let_def big small)
qed

lemma file_step_unlisted:
  assumes "lower (snd (splitext (path_join fp item))) \<notin> extensions ex"
  shows "file_step ex da fp il ec item f acc = acc"
  using assms by (simp add: file_step_def Let_def split: prod.splits)

lemma gfs_items_dir:
  assumes "item \<notin> exclusions ex" "isdir node"
  shows "gfs_items ex da fp il ec ((item, node) # items) (so, co, st)
       = gfs_items ex da fp il ec items
           (so @ [DirLine il fp item]
               @ fst (get_folder_structure_and_content ex da (path_join fp item) (il + 1) ec node),
            co @ fst (snd (get_folder_structure_and_content ex da (path_join fp item) (il + 1) ec node)),
            add_stats st
              (snd (snd (get_folder_structure_and_content ex da (path_join fp item) (il + 1) ec node))))"
  using assms by (cases node) (simp_all add: case_prod_unfold)

lemma listed_in_dir:
  assumes "item \<notin> exclusions ex" "isdir node"
  shows "listed_in ex fp il ((item, node) # items)
       = listed_files ex (path_join fp item) (il + 1) node @ listed_in ex fp il items"
  using assms by (cases node) simp_all

lemma gfs_listed:
  "get_folder_structure_and_content ex da fp il True node
     = (fst (get_folder_structure_and_content ex da fp il True node),
        concat (map (content_block da) (listed_files ex fp il node)),
        total_stats (map (contribution da) (listed_files ex fp il node)))
   \<and> (\<forall>x \<in> set (listed_files ex fp il node).
         FileLine (fst x) (fst (snd x)) (fst (snd (snd x)))
           \<in> set (fst (get_folder_structure_and_content ex da fp il True node)))"
  "gfs_items ex da fp il True items (so, co, st)
     = (fst (gfs_items ex da fp il True items (so, co, st)),
        co @ concat (map (content_block da) (listed_in ex fp il items)),
        add_stats st (total_stats (map (contribution da) (listed_in ex fp il items))))
   \<and> set so \<subseteq> set (fst (gfs_items ex da fp il True items (so, co, st)))
   \<and> (\<forall>x \<in> set (listed_in ex fp il items).
         FileLine (fst x) (fst (snd x)) (fst (snd (snd x)))
           \<in> set (fst (gfs_items ex da fp il True items (so, co, st))))"
proof (induction ex fp il node and ex fp il items arbitrary: and so co st
       rule: listed_files_listed_in.induct)
  case (1 ex fp il entries)
  from "1.IH" [of "[]" "[]" zero_stats] show ?case by simp
next
  case (2 ex fp il entries)
  from "2.IH" [of "[]" "[]" zero_stats] show ?case by simp
next
  case (3 ex fp il msg)
  show ?case by simp
next
  case (4 ex fp il f)
  show ?case by simp
next
  case (5 ex fp il)
  show ?case by simp
next
  case (6 ex fp il item node items)
  show ?case
  proof (cases "item \<in> exclusions ex")
    case True
    with "6.IH"(1) [OF True, of so co st] show ?thesis by simp
  next
    case False
    show ?thesis
    proof (cases node)
      case (File f)
      show ?thesis
      proof (cases "lower (snd (splitext (path_join fp item))) \<in> extensions ex")
        case e: True
        note ih = "6.IH"(2) [OF False File e, of "so @ [FileLine il fp item]"
                     "co @ content_block da (il, fp, item, f)"
                     "add_stats st (contribution da (il, fp, item, f))"]
        have g: "gfs_items ex da fp il True ((item, node) # items) (so, co, st)
            = gfs_items ex da fp il True items
                (so @ [FileLine il fp item], co @ content_block da (il, fp, item, f),
                 add_stats st (contribution da (il, fp, item, f)))"
          using False File by (simp add: file_step_listed [OF e])
        have l: "listed_in ex fp il ((item, node) # items) = (il, fp, item, f) # listed_in ex fp il items"
          using False File e by simp
        from ih show ?thesis unfolding g l by (auto simp: add_stats_assoc)
      next
        case e: False
        note ih = "6.IH"(3) [OF False File e, of so co st]
        have g: "gfs_items ex da fp il True ((item, node) # items) (so, co, st)
            = gfs_items ex da fp il True items (so, co, st)"
          using False File by (simp add: file_step_unlisted [OF e])
        have l: "listed_in ex fp il ((item, node) # items) = listed_in ex fp il items"
          using False File e by simp
        from ih show ?thesis unfolding g l .
      qed
    next
      case (Dir es)
      then have d: "isdir node" by simp
      define sub where "sub = get_folder_structure_and_content ex da (path_join fp item) (il + 1) True node"
      define L where "L = listed_files ex (path_join fp item) (il + 1) node"
      have subP: "sub = (fst sub, concat (map (content_block da) L), total_stats (map (contribution da) L))"
        and subL: "\<forall>x \<in> set L. FileLine (fst x) (fst (snd x)) (fst (snd (snd x))) \<in> set (fst sub)"
        using "6.IH"(4) [OF False Dir] unfolding sub_def L_def by simp_all
      have c2: "fst (snd sub) = concat (map (content_block da) L)"
        and c3: "snd (snd sub) = total_stats (map (contribution da) L)"
        using subP by (metis fst_conv snd_conv)+
      note ih = "6.IH"(5) [OF False Dir, of "so @ [DirLine il fp item] @ fst sub"
                   "co @ concat (map (content_block da) L)"
                   "add_stats st (total_stats (map (contribution da) L))"]
      have g: "gfs_items ex da fp il True ((item, node) # items) (so, co, st)
          = gfs_items ex da fp il True items
              (so @ [DirLine il fp item] @ fst sub, co @ concat (map (content_block da) L),
               add_stats st (total_stats (map (contribution da) L)))"
        unfolding gfs_items_dir [OF False d] sub_def [symmetric] c2 c3 ..
      have l: "listed_in ex fp il ((item, node) # items) = L @ listed_in ex fp il items"
        unfolding listed_in_dir [OF False d] L_def ..
      from ih subL show ?thesis unfolding g l
        by (auto simp: add_stats_assoc total_stats_append)
    next
      case (DirError m)
      then have d: "isdir node" by simp
      define sub where "sub = get_folder_structure_and_content ex da (path_join fp item) (il + 1) True node"
      define L where "L = listed_files ex (path_join fp item) (il + 1) node"
      have subP: "sub = (fst sub, concat (map (content_block da) L), total_stats (map (contribution da) L))"
        and subL: "\<forall>x \<in> set L. FileLine (fst x) (fst (snd x)) (fst (snd (snd x))) \<in> set (fst sub)"
        using "6.IH"(6) [OF False DirError] unfolding sub_def L_def by simp_all
      have c2: "fst (snd sub) = concat (map (content_block da) L)"
        and c3: "snd (snd sub) = total_stats (map (contribution da) L)"
        using subP by (metis fst_conv snd_conv)+
      note ih = "6.IH"(7) [OF False DirError, of "so @ [DirLine il fp item] @ fst sub"
                   "co @ concat (map (content_block da) L)"
                   "add_stats st (total_stats (map (contribution da) L))"]
      have g: "gfs_items ex da fp il True ((item, node) # items) (so, co, st)
          = gfs_items ex da fp il True items
              (so @ [DirLine il fp item] @ fst sub, co @ concat (map (content_block da) L),
               add_stats st (total_stats (map (contribution da) L)))"
        unfolding gfs_items_dir [OF False d] sub_def [symmetric] c2 c3 ..
      have l: "listed_in ex fp il ((item, node) # items) = L @ listed_in ex fp il items"
        unfolding listed_in_dir [OF False d] L_def ..
      from ih subL show ?thesis unfolding g l
        by (auto simp: add_stats_assoc total_stats_append)
    next
      case (Link es)
      then have d: "isdir node" by simp
      define sub where "sub = get_folder_structure_and_content ex da (path_join fp item) (il + 1) True node"
      define L where "L = listed_files ex (path_join fp item) (il + 1) node"
      have subP: "sub = (fst sub, concat (map (content_block da) L), total_stats (map (contribution da) L))"
        and subL: "\<forall>x \<in> set L. FileLine (fst x) (fst (snd x)) (fst (snd (snd x))) \<in> set (fst sub)"
        using "6.IH"(8) [OF False Link] unfolding sub_def L_def by simp_all
      have c2: "fst (snd sub) = concat (map (content_block da) L)"
        and c3: "snd (snd sub) = total_stats (map (contribution da) L)"
        using subP by (metis fst_conv snd_conv)+
      note ih = "6.IH"(9) [OF False Link, of "so @ [DirLine il fp item] @ fst sub"
                   "co @ concat (map (content_block da) L)"
                   "add_stats st (total_stats (map (contribution da) L))"]
      have g: "gfs_items ex da fp il True ((item, node) # items) (so, co, st)
          = gfs_items ex da fp il True items
              (so @ [DirLine il fp item] @ fst sub, co @ concat (map (content_block da) L),
               add_stats st (total_stats (map (contribution da) L)))"
        unfolding gfs_items_dir [OF False d] sub_def [symmetric] c2 c3 ..
      have l: "listed_in ex fp il ((item, node) # items) = L @ listed_in ex fp il items"
        unfolding listed_in_dir [OF False d] L_def ..
      from ih subL show ?thesis unfolding g l
        by (auto simp: add_stats_assoc total_stats_append)
    qed
  qed
qed


lemma file_in_iff:
  "file_in fl es comps f \<longleftrightarrow>
     (\<exists>e \<in> set es. comps \<noteq> [] \<and> hd comps = fst e
        \<and> (if tl comps = [] then snd e = File f
            else (fl \<or> \<not> islink (snd e)) \<and> file_at fl (snd e) (tl comps) f))"
proof (induction es)
  case Nil
  show ?case by simp
next
  case (Cons e es)
  obtain n node where e: "e = (n, node)" by (cases e) auto
  show ?case
  proof (cases comps)
    case Nil
    then show ?thesis by (simp add: e)
  next
    case (Cons c rest)
    with Cons.IH show ?thesis by (auto simp: e)
  qed
qed

lemma file_at_isdir: "file_at fl node comps f \<Longrightarrow> isdir node"
  by (cases node) simp_all

lemma file_at_entries:
  assumes "file_at fl node comps f"
  obtains es where "node = Dir es \<or> node = Link es" "file_in fl es comps f"
  using assms by (cases node) simp_all

lemma listed_in_mem:
  assumes "(n, node) \<in> set items" "n \<notin> exclusions ex"
  shows "(node = File f \<and> lower (snd (splitext (path_join fp n))) \<in> extensions ex
            \<longrightarrow> (il, fp, n, f) \<in> set (listed_in ex fp il items))
       \<and> (isdir node \<longrightarrow>
            set (listed_files ex (path_join fp n) (il + 1) node) \<subseteq> set (listed_in ex fp il items))"
  using assms
proof (induction items)
  case Nil
  then show ?case by simp
next
  case (Cons e items)
  obtain m nd where e: "e = (m, nd)" by (cases e) auto
  show ?case
  proof (cases "(n, node) = (m, nd)")
    case True
    then have mn: "m = n" "nd = node" by simp_all
    show ?thesis
    proof (cases "isdir node")
      case True
      then show ?thesis
        using Cons.prems(2) unfolding e mn listed_in_dir [OF Cons.prems(2) True] by auto
    next
      case False
      then obtain g where g: "node = File g" by (cases node) simp_all
      show ?thesis using Cons.prems(2) by (simp add: e mn g)
    qed
  next
    case False
    with Cons.prems(1) have "(n, node) \<in> set items" unfolding e by auto
    from Cons.IH [OF this Cons.prems(2)]
    have ih: "(node = File f \<and> lower (snd (splitext (path_join fp n))) \<in> extensions ex
            \<longrightarrow> (il, fp, n, f) \<in> set (listed_in ex fp il items))"
       "(isdir node \<longrightarrow>
            set (listed_files ex (path_join fp n) (il + 1) node) \<subseteq> set (listed_in ex fp il items))"
      by simp_all
    have sub: "set (listed_in ex fp il items) \<subseteq> set (listed_in ex fp il (e # items))"
    proof (cases "m \<in> exclusions ex")
      case True
      then show ?thesis by (simp add: e)
    next
      case ne: False
      show ?thesis
      proof (cases "isdir nd")
        case True
        show ?thesis unfolding e listed_in_dir [OF ne True] by auto
      next
        case False
        then obtain g where "nd = File g" by (cases nd) simp_all
        then show ?thesis using ne by (auto simp: e)
      qed
    qed
    from ih sub show ?thesis by blast
  qed
qed

lemma listed_files_entries:
  "node = Dir es \<or> node = Link es \<Longrightarrow> listed_files ex fp il node = listed_in ex fp il (sort_key fst es)"
  by auto

lemma listed_from_file_at:
  assumes "file_at True node comps f"
    and "\<forall>c \<in> set comps. c \<notin> exclusions ex"
    and "lower (snd (splitext (foldl path_join fp comps))) \<in> extensions ex"
  shows "(il + (length comps - 1), foldl path_join fp (butlast comps), last comps, f)
           \<in> set (listed_files ex fp il node)"
  using assms
proof (induction comps arbitrary: node fp il)
  case Nil
  from Nil.prems(1) obtain es where "file_in True es [] f" by (rule file_at_entries)
  then show ?case by (simp add: file_in_iff)
next
  case (Cons c rest)
  from Cons.prems(1) obtain es where node: "node = Dir es \<or> node = Link es"
    and fi: "file_in True es (c # rest) f" by (rule file_at_entries)
  from fi have "\<exists>e \<in> set es. c = fst e
        \<and> (if rest = [] then snd e = File f else file_at True (snd e) rest f)"
    unfolding file_in_iff by (cases "rest = []") auto
  then obtain e where e: "e \<in> set es" "c = fst e"
    and k: "if rest = [] then snd e = File f else file_at True (snd e) rest f"
    by blast
  obtain nd where ee: "e = (c, nd)" using e(2) by (cases e) auto
  have mem: "(c, nd) \<in> set (sort_key fst es)" using e(1) ee by simp
  have cx: "c \<notin> exclusions ex" using Cons.prems(2) by simp
  note lm = listed_in_mem [OF mem cx, of f fp il]
  show ?case
  proof (cases "rest = []")
    case True
    with k ee have "nd = File f" by simp
    moreover have "lower (snd (splitext (path_join fp c))) \<in> extensions ex"
      using Cons.prems(3) True by simp
    ultimately have "(il, fp, c, f) \<in> set (listed_in ex fp il (sort_key fst es))"
      using lm by blast
    then show ?thesis using True by (simp add: listed_files_entries [OF node])
  next
    case False
    with k ee have fa: "file_at True nd rest f" by simp
    have ex': "\<forall>c \<in> set rest. c \<notin> exclusions ex" using Cons.prems(2) by simp
    have ext: "lower (snd (splitext (foldl path_join (path_join fp c) rest))) \<in> extensions ex"
      using Cons.prems(3) by simp
    from Cons.IH [OF fa ex' ext, of "il + 1"]
    have "(il + 1 + (length rest - 1), foldl path_join (path_join fp c) (butlast rest), last rest, f)
           \<in> set (listed_files ex (path_join fp c) (il + 1) nd)" .
    moreover have "isdir nd" using fa by (rule file_at_isdir)
    ultimately have m: "(il + 1 + (length rest - 1), foldl path_join (path_join fp c) (butlast rest),
           last rest, f) \<in> set (listed_in ex fp il (sort_key fst es))"
      using lm by blast
    have eq: "(il + 1 + (length rest - 1), foldl path_join (path_join fp c) (butlast rest),
           last rest, f) = (il + (length (c # rest) - 1), foldl path_join fp (butlast (c # rest)),
           last (c # rest), f)"
      using False by (cases rest) simp_all
    show ?thesis using m unfolding eq listed_files_entries [OF node] .
  qed
qed


lemma build_context_report:
  "build_context ex0 da folder_path True tree =
     (let ex = ex0\<lparr>exclusions := DEFAULT_EXCLUSIONS \<union> exclusions ex0\<rparr>;
          out = get_folder_structure_and_content ex da folder_path 0 True tree;
          st = snd (snd out)
      in (strip (join [CHR 0x0A]
            ([''FOLDER STRUCTURE:''] @ map render_struct (fst out) @
             [separator, ''FILE CONTENTS:''] @ map render_content (fst (snd out)) @
             [separator,
              ''Statistics: '' @ str_nat (words st) @ '' words, '' @ str_nat (lines st)
                @ '' lines, '' @ str_nat (characters st) @ '' chars, ~''
                @ str_nat (tokens st) @ '' tokens. Size: ''
                @ human_readable_size (of_nat (size_b st))])),
          ex))"
  by (simp add: build_context_def Let_def split_beta)

lemma sample_deep_walk:
  "get_folder_structure_and_content
     (sample_extractor\<lparr>exclusions := DEFAULT_EXCLUSIONS \<union> exclusions sample_extractor\<rparr>)
     True ''/p'' 0 True sample_deep_tree
   = ([FileLine 0 ''/p'' ''a.py'', DirLine 0 ''/p'' ''docs'',
       FileLine 1 ''/p/docs'' ''big.txt'', FileLine 1 ''/p/docs'' ''note.txt''],
      [FileHeader 0 ''/p'' ''a.py'', Extracted (''Content:'' @ [CHR 0x0A] @ ''hello world''),
       FileHeader 1 ''/p/docs'' ''big.txt'', TooLarge 1,
       FileHeader 1 ''/p/docs'' ''note.txt'',
       Extracted (''    Content:'' @ [CHR 0x0A] @ ''one two'')],
      \<lparr>words = 4, lines = 0, characters = 18, tokens = 4, size_b = 153620\<rparr>)"
  by (simp add: sample_deep_tree_def sample_defs str_eval file_step_def extract_file_content_def
      text_stats_def add_file_stats_def add_stats_def zero_stats_def indent_def)

lemma sample_deep_size:
  "human_readable_size 153620 = ''150.0 KB''"
  "str_nat 4 = ''4''" "str_nat 0 = ''0''" "str_nat 18 = ''18''"
proof -
  have f: "\<lfloor>(192025 / 128 :: rat)\<rfloor> = 1500" by (simp add: floor_unique)
  have "fmt_1f (38405 / 256) = ''150.0''"
    unfolding fmt_1f_def Let_def by (simp add: f str_nat.simps digit_char_def)
  then show "human_readable_size 153620 = ''150.0 KB''"
    by (simp add: human_readable_size_def)
  show "str_nat 4 = ''4''" "str_nat 0 = ''0''" "str_nat 18 = ''18''"
    by (simp_all add: str_nat.simps digit_char_def)
qed

text \<open>
  Claim C7. A large allowlisted file in full extraction with content. Take any tree and
  any file of it, at any depth (under the names \<open>comps\<close> below the root, possibly
  through links), with no excluded name on its path, with its lower-cased extension in
  the allowlist and with a size over 100 KiB. Then the walk
  \<open>get_folder_structure_and_content\<close> lists the file in the structure report; the
  content report holds, at the file's place in the order of the walk, its header
  followed by the placeholder line, which renders as \<open>[File too large to display]\<close>;
  the totals are those of the files listed before it, plus nothing but the file's byte
  size in the size counter, plus those of the files listed after it; neither the block
  nor the contribution depends on what reading the file would return; and the report
  \<open>build_context\<close> returns is the rendering of exactly these lines and totals.
\<close>

theorem large_file_placeholder:
  fixes ex0 :: extractor and da :: bool and folder_path :: string and tree :: fsnode
    and comps :: "string list" and f :: file_data and file_size :: nat
  defines "ex \<equiv> ex0\<lparr>exclusions := DEFAULT_EXCLUSIONS \<union> exclusions ex0\<rparr>"
  defines "out \<equiv> get_folder_structure_and_content ex da folder_path 0 True tree"
  defines "il \<equiv> length comps - 1"
  defines "dir \<equiv> foldl path_join folder_path (butlast comps)"
  defines "item \<equiv> last comps"
  defines "st \<equiv> snd (snd out)"
  assumes "file_at True tree comps f"
    and "\<forall>c \<in> set comps. c \<notin> exclusions ex"
    and "lower (snd (splitext (foldl path_join folder_path comps))) \<in> extensions ex"
    and "getsize f = Inr file_size"
    and "100 * 1024 < file_size"
  shows "FileLine il dir item \<in> set (fst out)
       \<and> (\<exists>A B. listed_files ex folder_path 0 tree = A @ [(il, dir, item, f)] @ B
             \<and> fst (snd out) = concat (map (content_block da) A)
                   @ [FileHeader il dir item, TooLarge il] @ concat (map (content_block da) B)
             \<and> st = add_stats (total_stats (map (contribution da) A))
                      (add_stats \<lparr>words = 0, lines = 0, characters = 0, tokens = 0,
                                  size_b = file_size\<rparr>
                         (total_stats (map (contribution da) B))))
       \<and> render_content (TooLarge il) = indent il @ ''[File too large to display]''
       \<and> (\<forall>r l. content_block da (il, dir, item, f\<lparr>read_text := r, read_lib := l\<rparr>)
                   = content_block da (il, dir, item, f)
               \<and> contribution da (il, dir, item, f\<lparr>read_text := r, read_lib := l\<rparr>)
                   = contribution da (il, dir, item, f))
       \<and> build_context ex0 da folder_path True tree =
           (strip (join [CHR 0x0A]
              ([''FOLDER STRUCTURE:''] @ map render_struct (fst out) @
               [separator, ''FILE CONTENTS:''] @ map render_content (fst (snd out)) @
               [separator,
                ''Statistics: '' @ str_nat (words st) @ '' words, '' @ str_nat (lines st)
                  @ '' lines, '' @ str_nat (characters st) @ '' chars, ~''
                  @ str_nat (tokens st) @ '' tokens. Size: ''
                  @ human_readable_size (of_nat (size_b st))])),
            ex)"
proof -
  define x where "x = (il, dir, item, f)"
  have mem: "x \<in> set (listed_files ex folder_path 0 tree)"
    using listed_from_file_at [OF assms(7,8,9), of 0]
    by (simp add: x_def il_def dir_def item_def)
  note g = gfs_listed(1) [of ex da folder_path 0 tree]
  from g have line: "\<forall>x \<in> set (listed_files ex folder_path 0 tree).
      FileLine (fst x) (fst (snd x)) (fst (snd (snd x))) \<in> set (fst out)"
    unfolding out_def by (rule conjunct2)
  from g have eq: "out = (fst out, concat (map (content_block da) (listed_files ex folder_path 0 tree)),
       total_stats (map (contribution da) (listed_files ex folder_path 0 tree)))"
    unfolding out_def by (rule conjunct1)
  have blk: "content_block da x = [FileHeader il dir item, TooLarge il]"
    using assms(10,11) by (simp add: content_block_def x_def)
  have con: "contribution da x
      = \<lparr>words = 0, lines = 0, characters = 0, tokens = 0, size_b = file_size\<rparr>"
    using assms(10,11) by (simp add: contribution_def x_def zero_stats_def)
  from mem obtain A B where L: "listed_files ex folder_path 0 tree = A @ x # B"
    by (auto simp: in_set_conv_decomp)
  have c1: "fst (snd out) = concat (map (content_block da) A)
                   @ [FileHeader il dir item, TooLarge il] @ concat (map (content_block da) B)"
    by (subst eq) (simp add: L blk)
  have c2: "st = add_stats (total_stats (map (contribution da) A))
                      (add_stats \<lparr>words = 0, lines = 0, characters = 0, tokens = 0,
                                  size_b = file_size\<rparr>
                         (total_stats (map (contribution da) B)))"
    unfolding st_def by (subst eq) (simp add: L con total_stats_append)
  have p1: "FileLine il dir item \<in> set (fst out)"
    using line mem by (auto simp: x_def)
  have p2: "\<exists>A B. listed_files ex folder_path 0 tree = A @ [(il, dir, item, f)] @ B
             \<and> fst (snd out) = concat (map (content_block da) A)
                   @ [FileHeader il dir item, TooLarge il] @ concat (map (content_block da) B)
             \<and> st = add_stats (total_stats (map (contribution da) A))
                      (add_stats \<lparr>words = 0, lines = 0, characters = 0, tokens = 0,
                                  size_b = file_size\<rparr>
                         (total_stats (map (contribution da) B)))"
    using L c1 c2 unfolding x_def by (intro exI [of _ A] exI [of _ B]) simp
  have p3: "render_content (TooLarge il) = indent il @ ''[File too large to display]''"
    by simp
  have p4: "\<forall>r l. content_block da (il, dir, item, f\<lparr>read_text := r, read_lib := l\<rparr>)
                   = content_block da (il, dir, item, f)
               \<and> contribution da (il, dir, item, f\<lparr>read_text := r, read_lib := l\<rparr>)
                   = contribution da (il, dir, item, f)"
    using assms(10,11) by (simp add: content_block_def contribution_def)
  have p5: "build_context ex0 da folder_path True tree =
           (strip (join [CHR 0x0A]
              ([''FOLDER STRUCTURE:''] @ map render_struct (fst out) @
               [separator, ''FILE CONTENTS:''] @ map render_content (fst (snd out)) @
               [separator,
                ''Statistics: '' @ str_nat (words st) @ '' words, '' @ str_nat (lines st)
                  @ '' lines, '' @ str_nat (characters st) @ '' chars, ~''
                  @ str_nat (tokens st) @ '' tokens. Size: ''
                  @ human_readable_size (of_nat (size_b st))])),
            ex)"
    unfolding build_context_report st_def out_def ex_def by (simp add: Let_def)
  from p1 p2 p3 p4 p5 show ?thesis by (intro conjI)
qed


theorem large_file_placeholder_witness:
  "file_at True sample_deep_tree [''docs'', ''big.txt'']
      \<lparr>getsize = Inr (150 * 1024), read_text = Inr ''x y z'',
       read_lib = (\<lambda>_. ([], zero_file_stats)),
       listdir_error = ''[Errno 20] Not a directory''\<rparr>
   \<and> ''docs'' \<notin> DEFAULT_EXCLUSIONS \<union> exclusions sample_extractor
   \<and> ''big.txt'' \<notin> DEFAULT_EXCLUSIONS \<union> exclusions sample_extractor
   \<and> lower (snd (splitext (foldl path_join ''/p'' [''docs'', ''big.txt''])))
         \<in> extensions sample_extractor
   \<and> (100 :: nat) * 1024 < 150 * 1024
   \<and> FileLine 1 ''/p/docs'' ''big.txt'' \<in> set (fst (get_folder_structure_and_content
         (sample_extractor\<lparr>exclusions := DEFAULT_EXCLUSIONS \<union> exclusions sample_extractor\<rparr>)
         True ''/p'' 0 True sample_deep_tree))
   \<and> build_context sample_extractor True ''/p'' True sample_deep_tree =
       (strip (join [CHR 0x0A]
          [''FOLDER STRUCTURE:'', ''a.py'', ''docs/'', ''    big.txt'', ''    note.txt'',
           separator, ''FILE CONTENTS:'',
           [CHR 0x0A] @ ''File: /p/a.py'', ''Content:'' @ [CHR 0x0A] @ ''hello world'',
           [CHR 0x0A] @ ''    File: /p/docs/big.txt'', ''    [File too large to display]'',
           [CHR 0x0A] @ ''    File: /p/docs/note.txt'',
           ''    Content:'' @ [CHR 0x0A] @ ''one two'',
           separator,
           ''Statistics: 4 words, 0 lines, 18 chars, ~4 tokens. Size: 150.0 KB'']),
        sample_extractor\<lparr>exclusions := DEFAULT_EXCLUSIONS \<union> exclusions sample_extractor\<rparr>)"
proof -
  define big where "big = \<lparr>getsize = Inr (150 * 1024), read_text = Inr ''x y z'',
       read_lib = (\<lambda>_ :: nat. ([] :: string, zero_file_stats)),
       listdir_error = ''[Errno 20] Not a directory''\<rparr>"
  have h1: "file_at True sample_deep_tree [''docs'', ''big.txt''] big"
    by (simp add: sample_deep_tree_def sample_file_def big_def)
  have h2: "\<forall>c \<in> set [''docs'', ''big.txt''].
         c \<notin> exclusions (sample_extractor\<lparr>exclusions :=
                 DEFAULT_EXCLUSIONS \<union> exclusions sample_extractor\<rparr>)"
    by (simp add: DEFAULT_EXCLUSIONS_def sample_extractor_def)
  have h3: "lower (snd (splitext (foldl path_join ''/p'' [''docs'', ''big.txt''])))
         \<in> extensions (sample_extractor\<lparr>exclusions :=
                 DEFAULT_EXCLUSIONS \<union> exclusions sample_extractor\<rparr>)"
    by (simp add: sample_extractor_def str_eval)
  have h4: "getsize big = Inr (150 * 1024)" by (simp add: big_def)
  have h5: "(100 :: nat) * 1024 < 150 * 1024" by simp
  note t = large_file_placeholder [where ?ex0.0 = sample_extractor and da = True
      and folder_path = "''/p''" and tree = sample_deep_tree, OF h1 h2 h3 h4 h5]
  from t have a: "FileLine (length [''docs'', ''big.txt''] - 1)
        (foldl path_join ''/p'' (butlast [''docs'', ''big.txt''])) (last [''docs'', ''big.txt''])
      \<in> set (fst (get_folder_structure_and_content
         (sample_extractor\<lparr>exclusions := DEFAULT_EXCLUSIONS \<union> exclusions sample_extractor\<rparr>)
         True ''/p'' 0 True sample_deep_tree))"
    by (rule conjunct1)
  have a': "FileLine 1 ''/p/docs'' ''big.txt'' \<in> set (fst (get_folder_structure_and_content
         (sample_extractor\<lparr>exclusions := DEFAULT_EXCLUSIONS \<union> exclusions sample_extractor\<rparr>)
         True ''/p'' 0 True sample_deep_tree))"
    using a by (simp add: path_join_def)
  note b = t [THEN conjunct2, THEN conjunct2, THEN conjunct2, THEN conjunct2]
  have b': "build_context sample_extractor True ''/p'' True sample_deep_tree =
       (strip (join [CHR 0x0A]
          [''FOLDER STRUCTURE:'', ''a.py'', ''docs/'', ''    big.txt'', ''    note.txt'',
           separator, ''FILE CONTENTS:'',
           [CHR 0x0A] @ ''File: /p/a.py'', ''Content:'' @ [CHR 0x0A] @ ''hello world'',
           [CHR 0x0A] @ ''    File: /p/docs/big.txt'', ''    [File too large to display]'',
           [CHR 0x0A] @ ''    File: /p/docs/note.txt'',
           ''    Content:'' @ [CHR 0x0A] @ ''one two'',
           separator,
           ''Statistics: 4 words, 0 lines, 18 chars, ~4 tokens. Size: 150.0 KB'']),
        sample_extractor\<lparr>exclusions := DEFAULT_EXCLUSIONS \<union> exclusions sample_extractor\<rparr>)"
    unfolding b sample_deep_walk
    by (simp add: sample_deep_size indent_def path_join_def)
  from h1 h2 h3 h5 a' b' show ?thesis unfolding big_def by simp
qed


section \<open>Facts about the targeted walk\<close>

lemma add_selected_Nil [simp]: "add_selected X targets da fp [] acc = acc"
  by (simp add: add_selected_def)

lemma add_selected_append:
  "add_selected X targets da fp (A @ B) acc
     = add_selected X targets da fp B (add_selected X targets da fp A acc)"
  by (simp add: add_selected_def)

lemma add_selected_filter_cong:
  "filter (selected X targets) A = filter (selected X targets) B
     \<Longrightarrow> add_selected X targets da fp A acc = add_selected X targets da fp B acc"
  by (simp add: add_selected_def)

lemma target_step_selected:
  assumes "\<forall>c \<in> set rel. c \<notin> exclusions ex"
  shows "target_step ex da (map (\<lambda>t. lower (normpath t)) targets) (foldl path_join fp rel) rel
           file f acc
       = add_selected (exclusions ex) targets da fp [(rel @ [file], f)] acc"
proof -
  obtain co st where acc: "acc = (co, st)" by (cases acc) auto
  define ct where "ct = map (\<lambda>t. lower (normpath t)) targets"
  define hit where "hit = (lower (normpath (relpath_below (rel @ [file]))) \<in> set ct
        \<or> lower file \<in> set ct)"
  have m: "hit = target_match targets (rel @ [file])"
    unfolding hit_def ct_def by (auto simp: target_match_def relpath_below_def)
  have s: "selected (exclusions ex) targets (rel @ [file], f)
      = (file \<notin> exclusions ex \<and> hit)"
    using assms unfolding m by (auto simp: selected_def)
  obtain c fs where x: "extract_file_content da (path_join (foldl path_join fp rel) file) f 1
      = (c, fs)"
    by (cases "extract_file_content da (path_join (foldl path_join fp rel) file) f 1") auto
  have x': "extract_file_content da (path_join (foldl path_join fp rel) file) f (Suc 0)
      = (c, fs)"
    using x by simp
  have step: "target_step ex da ct (foldl path_join fp rel) rel file f (co, st)
      = (if file \<notin> exclusions ex \<and> hit
         then (co @ [TargetHeader (rel @ [file]), Extracted c], add_file_stats st fs)
         else (co, st))"
    by (simp add: target_step_def Let_def hit_def [symmetric] x')
  have te: "target_extract da fp (rel @ [file], f) = (c, fs)"
    by (simp add: target_extract_def x')
  have sel: "add_selected (exclusions ex) targets da fp [(rel @ [file], f)] (co, st)
      = (if file \<notin> exclusions ex \<and> hit
         then (co @ [TargetHeader (rel @ [file]), Extracted c], add_file_stats st fs)
         else (co, st))"
    by (simp add: add_selected_def s target_block_def te)
  show ?thesis unfolding acc ct_def [symmetric] step sel ..
qed

lemma target_files_selected:
  assumes "\<forall>c \<in> set rel. c \<notin> exclusions ex"
  shows "target_files ex da (map (\<lambda>t. lower (normpath t)) targets) (foldl path_join fp rel) rel
           entries acc
       = add_selected (exclusions ex) targets da fp (files_here rel entries) acc"
proof (induction entries arbitrary: acc)
  case Nil
  show ?case by simp
next
  case (Cons e entries)
  define ct where "ct = map (\<lambda>t. lower (normpath t)) targets"
  define rp where "rp = foldl path_join fp rel"
  note ih = Cons.IH [folded ct_def rp_def]
  obtain n node where e: "e = (n, node)" by (cases e) auto
  show ?case
  proof (cases node)
    case (File f)
    have "target_files ex da ct rp rel ((n, File f) # entries) acc
        = target_files ex da ct rp rel entries (target_step ex da ct rp rel n f acc)"
      by simp
    also have "\<dots> = add_selected (exclusions ex) targets da fp (files_here rel entries)
                      (target_step ex da ct rp rel n f acc)"
      by (rule ih)
    also have "target_step ex da ct rp rel n f acc
        = add_selected (exclusions ex) targets da fp [(rel @ [n], f)] acc"
      unfolding ct_def rp_def by (rule target_step_selected [OF assms])
    also have "add_selected (exclusions ex) targets da fp (files_here rel entries)
                 (add_selected (exclusions ex) targets da fp [(rel @ [n], f)] acc)
        = add_selected (exclusions ex) targets da fp
            ([(rel @ [n], f)] @ files_here rel entries) acc"
      by (rule add_selected_append [symmetric])
    also have "[(rel @ [n], f)] @ files_here rel entries = files_here rel ((n, File f) # entries)"
      by simp
    finally show ?thesis unfolding e File ct_def rp_def .
  next
    case (Dir es)
    have "target_files ex da ct rp rel ((n, Dir es) # entries) acc
        = target_files ex da ct rp rel entries acc"
      by simp
    also have "\<dots> = add_selected (exclusions ex) targets da fp (files_here rel entries) acc"
      by (rule ih)
    also have "files_here rel entries = files_here rel ((n, Dir es) # entries)" by simp
    finally show ?thesis unfolding e Dir ct_def rp_def .
  next
    case (DirError m)
    have "target_files ex da ct rp rel ((n, DirError m) # entries) acc
        = target_files ex da ct rp rel entries acc"
      by simp
    also have "\<dots> = add_selected (exclusions ex) targets da fp (files_here rel entries) acc"
      by (rule ih)
    also have "files_here rel entries = files_here rel ((n, DirError m) # entries)" by simp
    finally show ?thesis unfolding e DirError ct_def rp_def .
  next
    case (Link es)
    have "target_files ex da ct rp rel ((n, Link es) # entries) acc
        = target_files ex da ct rp rel entries acc"
      by simp
    also have "\<dots> = add_selected (exclusions ex) targets da fp (files_here rel entries) acc"
      by (rule ih)
    also have "files_here rel entries = files_here rel ((n, Link es) # entries)" by simp
    finally show ?thesis unfolding e Link ct_def rp_def .
  qed
qed

lemma files_here_prefix:
  "cf \<in> set (files_here rel entries) \<Longrightarrow> set rel \<subseteq> set (fst cf)"
  by (induction rel entries rule: files_here.induct) (auto split: fsnode.splits)

lemma walked_files_prefix:
  "cf \<in> set (walked_files rel node) \<Longrightarrow> set rel \<subseteq> set (fst cf)"
  "cf \<in> set (walked_subdirs rel entries) \<Longrightarrow> set rel \<subseteq> set (fst cf)"
proof (induction rel node and rel entries rule: walked_files_walked_subdirs.induct)
  case (1 rel entries)
  then show ?case using files_here_prefix [of cf rel entries] by auto
next
  case (2 rel entries)
  then show ?case using files_here_prefix [of cf rel entries] by auto
next
  case (6 rel d node entries)
  show ?case
  proof (cases "islink node")
    case True
    with "6.prems" have "cf \<in> set (walked_subdirs rel entries)" by simp
    then show ?thesis by (rule "6.IH"(1) [OF True])
  next
    case False
    with "6.prems" consider "cf \<in> set (walked_files (rel @ [d]) node)"
      | "cf \<in> set (walked_subdirs rel entries)" by auto
    then show ?thesis
    proof cases
      case 1
      then have "set (rel @ [d]) \<subseteq> set (fst cf)" by (rule "6.IH"(2) [OF False])
      then show ?thesis by simp
    next
      case 2
      then show ?thesis by (rule "6.IH"(3) [OF False])
    qed
  qed
qed simp_all

lemma excluded_dir_none_selected:
  assumes "d \<in> X"
  shows "filter (selected X targets) (walked_files (rel @ [d]) node) = []"
proof -
  have "\<not> selected X targets cf" if "cf \<in> set (walked_files (rel @ [d]) node)" for cf
    using walked_files_prefix(1) [OF that] assms by (auto simp: selected_def)
  then show ?thesis by (simp add: filter_empty_conv)
qed

lemma walked_files_not_dir: "\<not> isdir node \<Longrightarrow> walked_files rel node = []"
  by (cases node) simp_all

lemma walked_subdirs_kept:
  "filter (selected X targets)
     (walked_subdirs rel (filter (\<lambda>(d, node). isdir node \<and> d \<notin> X) entries))
   = filter (selected X targets) (walked_subdirs rel entries)"
proof (induction entries)
  case Nil
  then show ?case by simp
next
  case (Cons e entries)
  obtain d node where e: "e = (d, node)" by (cases e) auto
  show ?case
  proof (cases "isdir node \<and> d \<notin> X")
    case True
    with Cons e show ?thesis by simp
  next
    case False
    then have "filter (selected X targets) (walked_files (rel @ [d]) node) = []"
      using excluded_dir_none_selected [of d X targets rel node] walked_files_not_dir [of node]
      by auto
    with False Cons e show ?thesis by simp
  qed
qed

lemma walk_targets_entries:
  assumes "ct = map (\<lambda>t. lower (normpath t)) targets" "root' = foldl path_join fp rel"
    "\<forall>c \<in> set rel. c \<notin> exclusions ex"
    and ih: "walk_target_dirs ex da ct root' rel
               (filter (\<lambda>(d, node). isdir node \<and> d \<notin> exclusions ex) entries)
               (target_files ex da ct root' rel entries acc)
           = add_selected (exclusions ex) targets da fp
               (walked_subdirs rel (filter (\<lambda>(d, node). isdir node \<and> d \<notin> exclusions ex) entries))
               (target_files ex da ct root' rel entries acc)"
  shows "walk_target_dirs ex da ct root' rel
           (filter (\<lambda>(d, node). isdir node \<and> d \<notin> exclusions ex) entries)
           (target_files ex da ct root' rel entries acc)
       = add_selected (exclusions ex) targets da fp
           (files_here rel entries @ walked_subdirs rel entries) acc"
proof -
  have tf: "target_files ex da ct root' rel entries acc
      = add_selected (exclusions ex) targets da fp (files_here rel entries) acc"
    unfolding assms(1,2) by (rule target_files_selected [OF assms(3)])
  have "add_selected (exclusions ex) targets da fp
          (walked_subdirs rel (filter (\<lambda>(d, node). isdir node \<and> d \<notin> exclusions ex) entries))
          (target_files ex da ct root' rel entries acc)
      = add_selected (exclusions ex) targets da fp (walked_subdirs rel entries)
          (target_files ex da ct root' rel entries acc)"
    by (rule add_selected_filter_cong) (rule walked_subdirs_kept)
  also have "\<dots> = add_selected (exclusions ex) targets da fp
           (files_here rel entries @ walked_subdirs rel entries) acc"
    unfolding tf by (rule add_selected_append [symmetric])
  finally show ?thesis unfolding ih .
qed

lemma walk_targets_selected:
  "ct = map (\<lambda>t. lower (normpath t)) targets \<Longrightarrow> root' = foldl path_join fp rel
     \<Longrightarrow> \<forall>c \<in> set rel. c \<notin> exclusions ex
     \<Longrightarrow> walk_targets ex da ct root' rel node acc
         = add_selected (exclusions ex) targets da fp (walked_files rel node) acc"
  "ct = map (\<lambda>t. lower (normpath t)) targets \<Longrightarrow> root' = foldl path_join fp rel
     \<Longrightarrow> \<forall>c \<in> set rel. c \<notin> exclusions ex
     \<Longrightarrow> \<forall>e \<in> set dirs. fst e \<notin> exclusions ex
     \<Longrightarrow> walk_target_dirs ex da ct root' rel dirs acc
         = add_selected (exclusions ex) targets da fp (walked_subdirs rel dirs) acc"
proof (induction ex da ct root' rel node acc and ex da ct root' rel dirs acc
       rule: walk_targets_walk_target_dirs.induct)
  case (1 ex da clean_targets root' rel entries acc)
  have k: "\<forall>e \<in> set (filter (\<lambda>(d, node). isdir node \<and> d \<notin> exclusions ex) entries).
             fst e \<notin> exclusions ex"
    by auto
  show ?case
    using walk_targets_entries [OF "1.prems" "1.IH" [OF "1.prems" k]] by simp
next
  case (2 ex da clean_targets root' rel entries acc)
  have k: "\<forall>e \<in> set (filter (\<lambda>(d, node). isdir node \<and> d \<notin> exclusions ex) entries).
             fst e \<notin> exclusions ex"
    by auto
  show ?case
    using walk_targets_entries [OF "2.prems" "2.IH" [OF "2.prems" k]] by simp
next
  case (6 ex da clean_targets root' rel d node dirs acc)
  have rest: "\<forall>e \<in> set dirs. fst e \<notin> exclusions ex" using "6.prems"(4) by simp
  show ?case
  proof (cases "islink node")
    case True
    show ?thesis using "6.IH"(1) [OF True "6.prems"(1,2,3) rest] True by simp
  next
    case False
    have d: "d \<notin> exclusions ex" using "6.prems"(4) by simp
    have r: "\<forall>c \<in> set (rel @ [d]). c \<notin> exclusions ex" using "6.prems"(3) d by simp
    have p: "path_join root' d = foldl path_join fp (rel @ [d])" using "6.prems"(2) by simp
    have w: "walk_targets ex da clean_targets (path_join root' d) (rel @ [d]) node acc
        = add_selected (exclusions ex) targets da fp (walked_files (rel @ [d]) node) acc"
      by (rule "6.IH"(2) [OF False "6.prems"(1) p r])
    show ?thesis
      using "6.IH"(3) [OF False "6.prems"(1,2,3) rest] w False by (simp add: add_selected_append)
  qed
qed simp_all

lemma targeted_content_selected:
  "targeted_content ex da fp targets tree
     = add_selected (DEFAULT_EXCLUSIONS \<union> exclusions ex) targets da fp (walked_files [] tree)
         ([], zero_stats)"
  unfolding targeted_content_def
  using walk_targets_selected(1) [of _ targets fp fp "[]"
          "ex\<lparr>exclusions := DEFAULT_EXCLUSIONS \<union> exclusions ex\<rparr>" da tree "([], zero_stats)"]
  by simp

end
